theory Spec2Isabelle
  imports Main "HOL-Library.Sublist"
begin

section \<open>Python strings\<close>

text \<open>
  \<^verbatim>\<open>str.replace(old, new)\<close> scans the text from the left and replaces every
  non-overlapping occurrence of \<open>old\<close>. With an empty \<open>old\<close> Python puts \<open>new\<close>
  before every character and at the end.
\<close>

function replace_scan :: "string \<Rightarrow> string \<Rightarrow> string \<Rightarrow> string" where
  "replace_scan old new [] = []"
| "replace_scan old new (c # cs) =
     (if old \<noteq> [] \<and> prefix old (c # cs)
      then new @ replace_scan old new (drop (length old) (c # cs))
      else c # replace_scan old new cs)"
  by pat_completeness auto
termination
  by (relation "measure (\<lambda>(old, new, s). length s)") (auto simp: less_Suc_eq_le neq_Nil_conv)

definition py_replace :: "string \<Rightarrow> string \<Rightarrow> string \<Rightarrow> string" where
  "py_replace s old new =
     (if old = [] then new @ concat (map (\<lambda>c. c # new) s) else replace_scan old new s)"

text \<open>
  Metadata values are \<^verbatim>\<open>Any\<close>. The values of JSON are modelled structurally; a float
  is given by the text Python prints for it (the same for \<^verbatim>\<open>str\<close> and \<^verbatim>\<open>repr\<close>), and
  any other object, such as a \<^verbatim>\<open>datetime\<close>, by the two texts \<^verbatim>\<open>str\<close> and
  \<^verbatim>\<open>repr\<close> give for it.
\<close>

datatype py_value =
    PStr string
  | PInt int
  | PBool bool
  | PNone
  | PFloat string
  | PList "py_value list"
  | PDict "(string \<times> py_value) list"
  | POther string string

fun digits :: "nat \<Rightarrow> string" where
  "digits n = (if n < 10 then [''0123456789'' ! n] else digits (n div 10) @ [''0123456789'' ! (n mod 10)])"

definition int_text :: "int \<Rightarrow> string" where
  "int_text i = (if i < 0 then CHR ''-'' # digits (nat (- i)) else digits (nat i))"

text \<open>
  \<^verbatim>\<open>repr\<close> of a string: double quotes when the text has a single quote and no double
  quote, single quotes otherwise; the backslash, the chosen quote, tab, newline and
  carriage return are escaped, the other control characters are written in hexadecimal.
  A character beyond ASCII is its UTF-8 bytes, from 128 on, and is copied, as
  \<^verbatim>\<open>repr\<close> copies the printable ones.
\<close>

definition hex_digit :: "nat \<Rightarrow> char" where
  "hex_digit n = ''0123456789abcdef'' ! (n mod 16)"

definition escape_char :: "char \<Rightarrow> char \<Rightarrow> string" where
  "escape_char q c =
     (if c = CHR 0x5C then [CHR 0x5C, CHR 0x5C]
      else if c = q then [CHR 0x5C, q]
      else if c = CHR 0x09 then [CHR 0x5C, CHR ''t'']
      else if c = CHR 0x0A then [CHR 0x5C, CHR ''n'']
      else if c = CHR 0x0D then [CHR 0x5C, CHR ''r'']
      else if (of_char c :: nat) < 32 \<or> (of_char c :: nat) = 127
        then [CHR 0x5C, CHR ''x'', hex_digit (of_char c div 16), hex_digit (of_char c)]
      else [c])"

definition repr_str :: "string \<Rightarrow> string" where
  "repr_str s =
     (let q = (if CHR 0x27 \<in> set s \<and> CHR 0x22 \<notin> set s then CHR 0x22 else CHR 0x27)
      in q # concat (map (escape_char q) s) @ [q])"

fun join :: "string \<Rightarrow> string list \<Rightarrow> string" where
  "join sep [] = []"
| "join sep [x] = x"
| "join sep (x # y # ys) = x @ sep @ join sep (y # ys)"

fun py_repr :: "py_value \<Rightarrow> string" where
  "py_repr (PStr s) = repr_str s"
| "py_repr (PInt i) = int_text i"
| "py_repr (PBool b) = (if b then ''True'' else ''False'')"
| "py_repr PNone = ''None''"
| "py_repr (PFloat t) = t"
| "py_repr (PList xs) = ''['' @ join '', '' (map py_repr xs) @ '']''"
| "py_repr (PDict kvs) =
     ''{'' @ join '', '' (map (\<lambda>kv. repr_str (fst kv) @ '': '' @ py_repr (snd kv)) kvs) @ ''}''"
| "py_repr (POther s r) = r"

fun py_str :: "py_value \<Rightarrow> string" where
  "py_str (PStr s) = s"
| "py_str (POther s r) = s"
| "py_str v = py_repr v"


section \<open>Data model\<close>

text \<open>
  The pydantic models \<^verbatim>\<open>Recipient\<close> and \<^verbatim>\<open>Campaign\<close>. Both have fields
  \<^verbatim>\<open>id\<close>, \<^verbatim>\<open>name\<close>, \<^verbatim>\<open>status\<close>; the record fields carry the prefix
  \<open>r_\<close> or \<open>c_\<close>. A Python dict keeps its insertion order, so metadata is an
  association list. Timestamps are natural numbers. The fields \<^verbatim>\<open>created_at\<close>,
  \<^verbatim>\<open>template_id\<close> and \<^verbatim>\<open>ai_generated\<close> are neither read nor written by
  the dispatch code and are left out.
\<close>

record recipient =
  r_id :: string
  r_email :: string
  r_name :: "string option"
  r_metadata :: "(string \<times> py_value) list option"
  r_campaign_id :: "string option"
  r_status :: string

record campaign =
  c_id :: string
  c_name :: string
  c_subject :: string
  c_content :: string
  c_sender_name :: string
  c_status :: string
  c_total_recipients :: int
  c_sent_count :: int
  c_failed_count :: int
  c_updated_at :: nat

section \<open>Personalization (\<^verbatim>\<open>send_single_email\<close>, lines 104 to 116)\<close>

text \<open>The f-string \<^verbatim>\<open>f"{{{{{key}}}}}"\<close>: two opening braces, the key, two closing braces.\<close>

definition placeholder :: "string \<Rightarrow> string" where
  "placeholder key = ''{{'' @ key @ ''}}''"

text \<open>
  \<^verbatim>\<open>str.replace(old, new)\<close> raises \<^verbatim>\<open>TypeError\<close> when \<open>new\<close> is not a string. The
  call sites pass \<^verbatim>\<open>recipient.name\<close>, which the model \<^verbatim>\<open>Recipient\<close> types as a
  string, and \<^verbatim>\<open>str(value)\<close>.
\<close>

datatype py_error = TypeError

definition str_replace :: "string \<Rightarrow> string \<Rightarrow> py_value \<Rightarrow> py_error + string" where
  "str_replace s old new = (case new of PStr n \<Rightarrow> Inr (py_replace s old n) | _ \<Rightarrow> Inl TypeError)"

text \<open>The two assignments of one step: the content first, then the subject.\<close>

definition replace_both :: "string \<times> string \<Rightarrow> string \<Rightarrow> py_value \<Rightarrow> py_error + string \<times> string" where
  "replace_both cs old new =
     (case str_replace (fst cs) old new of
        Inl e \<Rightarrow> Inl e
      | Inr content \<Rightarrow>
          (case str_replace (snd cs) old new of
             Inl e \<Rightarrow> Inl e
           | Inr subject \<Rightarrow> Inr (content, subject)))"

text \<open>\<^verbatim>\<open>if recipient.name:\<close> is false for \<^verbatim>\<open>None\<close> and for the empty string.\<close>

definition name_step :: "recipient \<Rightarrow> string \<times> string \<Rightarrow> py_error + string \<times> string" where
  "name_step recipient cs =
     (case r_name recipient of
        None \<Rightarrow> Inr cs
      | Some n \<Rightarrow> if n = [] then Inr cs else replace_both cs ''{{name}}'' (PStr n))"

text \<open>\<^verbatim>\<open>for key, value in (recipient.metadata or {}).items()\<close>, on the pair (content, subject).\<close>

fun metadata_loop :: "(string \<times> py_value) list \<Rightarrow> string \<times> string \<Rightarrow> py_error + string \<times> string" where
  "metadata_loop [] cs = Inr cs"
| "metadata_loop ((key, v) # rest) cs =
     (case replace_both cs (placeholder key) (PStr (py_str v)) of
        Inl e \<Rightarrow> Inl e
      | Inr cs' \<Rightarrow> metadata_loop rest cs')"

definition metadata_items :: "recipient \<Rightarrow> (string \<times> py_value) list" where
  "metadata_items recipient = (case r_metadata recipient of None \<Rightarrow> [] | Some m \<Rightarrow> m)"

text \<open>
  Lines 104 to 116 on the pair (content, subject) of a campaign: the pair (personalized
  content, personalized subject), or the exception a replacement raises.
\<close>

definition personalize :: "recipient \<Rightarrow> string \<times> string \<Rightarrow> py_error + string \<times> string" where
  "personalize recipient cs =
     (case name_step recipient cs of
        Inl e \<Rightarrow> Inl e
      | Inr cs' \<Rightarrow> metadata_loop (metadata_items recipient) cs')"

section \<open>The delivery provider, the store and the log\<close>

text \<open>The \<^verbatim>\<open>Mail\<close> object handed to \<^verbatim>\<open>sg.send\<close>.\<close>

record mail =
  m_from :: "string option"
  m_to :: string
  m_subject :: string
  m_html :: string

text \<open>\<^verbatim>\<open>sg.send\<close> returns a response with a status code, or raises.\<close>

datatype sg_outcome = Response int | SendError

text \<open>
  The exceptions that can leave the \<^verbatim>\<open>try\<close> block of a run: an error of a store
  operation, and the \<^verbatim>\<open>ValidationError\<close> of pydantic when a stored document does
  not fit its model.
\<close>

datatype exn = StoreError | ValidationError

datatype log_entry =
    CampaignNotFound string
  | SendFailed string
  | CampaignError string
  | CampaignCompleted string int int

text \<open>One field of the \<^verbatim>\<open>$set\<close> document of a campaign update.\<close>

datatype campaign_set =
    SetStatus string
  | SetSentCount int
  | SetFailedCount int
  | SetUpdatedAt nat

text \<open>
  What the run does to the outside, in order: the store writes, the
  \<^verbatim>\<open>asyncio.gather\<close> of a batch, the provider calls, the pauses and the log lines.
\<close>

datatype event =
    CampaignUpdate string "campaign_set list"
  | RecipientUpdate string string
  | Gather "recipient list"
  | SgSend mail
  | Sleep nat
  | Log log_entry

text \<open>
  The environment of a run: the \<^verbatim>\<open>SENDER_EMAIL\<close> variable, the answer of the
  provider to its n-th call, whether the n-th store operation raises, the clock read
  before the n-th store operation, and what \<^verbatim>\<open>Campaign(**campaign_doc)\<close> and
  \<^verbatim>\<open>Recipient(**recipient_doc)\<close> make of a stored document: the validated object, or
  the exception raised.
\<close>

record env =
  sender_email :: "string option"
  sg_send :: "nat \<Rightarrow> mail \<Rightarrow> sg_outcome"
  db_fault :: "nat \<Rightarrow> bool"
  now :: "nat \<Rightarrow> nat"
  validate_campaign :: "campaign \<Rightarrow> exn + campaign"
  validate_recipient :: "recipient \<Rightarrow> exn + recipient"

text \<open>
  The two collections in store order, the number of store operations and of provider
  calls issued so far, and the trace.
\<close>

record world =
  campaigns :: "campaign list"
  recipients :: "recipient list"
  db_ops :: nat
  sg_calls :: nat
  trace :: "event list"

definition emit :: "event \<Rightarrow> world \<Rightarrow> world" where
  "emit e w = w\<lparr>trace := trace w @ [e]\<rparr>"

fun set_field :: "campaign_set \<Rightarrow> campaign \<Rightarrow> campaign" where
  "set_field (SetStatus s) c = c\<lparr>c_status := s\<rparr>"
| "set_field (SetSentCount n) c = c\<lparr>c_sent_count := n\<rparr>"
| "set_field (SetFailedCount n) c = c\<lparr>c_failed_count := n\<rparr>"
| "set_field (SetUpdatedAt t) c = c\<lparr>c_updated_at := t\<rparr>"

definition apply_sets :: "campaign_set list \<Rightarrow> campaign \<Rightarrow> campaign" where
  "apply_sets fs c = fold set_field fs c"

text \<open>\<^verbatim>\<open>update_one\<close> changes the first document that matches the filter, if any.\<close>

fun update_first :: "('a \<Rightarrow> bool) \<Rightarrow> ('a \<Rightarrow> 'a) \<Rightarrow> 'a list \<Rightarrow> 'a list" where
  "update_first p f [] = []"
| "update_first p f (x # xs) = (if p x then f x # xs else x # update_first p f xs)"

text \<open>
  Every store operation counts as one operation and raises when the environment says
  so; an operation that raises changes nothing in the store.
\<close>

definition campaigns_find_one :: "env \<Rightarrow> string \<Rightarrow> world \<Rightarrow> (exn + campaign option) \<times> world" where
  "campaigns_find_one env cid w =
     (if db_fault env (db_ops w) then (Inl StoreError, w\<lparr>db_ops := Suc (db_ops w)\<rparr>)
      else (Inr (find (\<lambda>c. c_id c = cid) (campaigns w)), w\<lparr>db_ops := Suc (db_ops w)\<rparr>))"

definition campaigns_update_one :: "env \<Rightarrow> string \<Rightarrow> campaign_set list \<Rightarrow> world \<Rightarrow> (exn + unit) \<times> world" where
  "campaigns_update_one env cid fs w =
     (if db_fault env (db_ops w) then (Inl StoreError, w\<lparr>db_ops := Suc (db_ops w)\<rparr>)
      else (Inr (),
            w\<lparr>campaigns := update_first (\<lambda>c. c_id c = cid) (apply_sets fs) (campaigns w),
              db_ops := Suc (db_ops w),
              trace := trace w @ [CampaignUpdate cid fs]\<rparr>))"

text \<open>\<^verbatim>\<open>db.recipients.find({"campaign_id": campaign_id, "status": "pending"})\<close>, read to its end.\<close>

definition recipients_find_pending :: "env \<Rightarrow> string \<Rightarrow> world \<Rightarrow> (exn + recipient list) \<times> world" where
  "recipients_find_pending env cid w =
     (if db_fault env (db_ops w) then (Inl StoreError, w\<lparr>db_ops := Suc (db_ops w)\<rparr>)
      else (Inr (filter (\<lambda>r. r_campaign_id r = Some cid \<and> r_status r = ''pending'') (recipients w)),
            w\<lparr>db_ops := Suc (db_ops w)\<rparr>))"

definition recipients_update_one :: "env \<Rightarrow> string \<Rightarrow> string \<Rightarrow> world \<Rightarrow> (exn + unit) \<times> world" where
  "recipients_update_one env rid st w =
     (if db_fault env (db_ops w) then (Inl StoreError, w\<lparr>db_ops := Suc (db_ops w)\<rparr>)
      else (Inr (),
            w\<lparr>recipients := update_first (\<lambda>r. r_id r = rid) (\<lambda>r. r\<lparr>r_status := st\<rparr>) (recipients w),
              db_ops := Suc (db_ops w),
              trace := trace w @ [RecipientUpdate rid st]\<rparr>))"

section \<open>\<^verbatim>\<open>send_single_email\<close>\<close>

definition html_line :: "nat \<Rightarrow> string \<Rightarrow> string" where
  "html_line n s = replicate n (CHR '' '') @ s @ [CHR 0x0A]"

definition dq :: string where
  "dq = [CHR 0x22]"

text \<open>The f-string of \<^verbatim>\<open>html_content\<close>, line by line with its indentation.\<close>

definition html_content :: "string \<Rightarrow> string \<Rightarrow> string" where
  "html_content content sender =
     [CHR 0x0A]
     @ html_line 12 ''<html>''
     @ html_line 16 (''<body style='' @ dq
         @ ''font-family: Arial, sans-serif; line-height: 1.6; color: #333;'' @ dq @ ''>'')
     @ html_line 20 (''<div style='' @ dq
         @ ''max-width: 600px; margin: 0 auto; padding: 20px;'' @ dq @ ''>'')
     @ html_line 24 (py_replace content [CHR 0x0A] ''<br>'')
     @ html_line 24 (''<hr style='' @ dq
         @ ''margin: 30px 0; border: none; border-top: 1px solid #eee;'' @ dq @ ''>'')
     @ html_line 24 (''<p style='' @ dq @ ''font-size: 12px; color: #666;'' @ dq @ ''>'')
     @ html_line 28 (''Sent by '' @ sender @ '' | '')
     @ html_line 28 (''<a href='' @ dq @ ''#'' @ dq @ '' style='' @ dq @ ''color: #666;'' @ dq
         @ ''>Unsubscribe</a>'')
     @ html_line 24 ''</p>''
     @ html_line 20 ''</div>''
     @ html_line 16 ''</body>''
     @ html_line 12 ''</html>''
     @ replicate 12 (CHR '' '')"

text \<open>
  The whole body is inside \<^verbatim>\<open>try\<close>: an exception of the personalization or of the
  provider call is logged and gives \<^verbatim>\<open>False\<close>, like a status code other than 202.
\<close>

definition send_single_email :: "env \<Rightarrow> recipient \<Rightarrow> campaign \<Rightarrow> world \<Rightarrow> bool \<times> world" where
  "send_single_email env recipient campaign w =
     (case personalize recipient (c_content campaign, c_subject campaign) of
        Inl e \<Rightarrow> (False, emit (Log (SendFailed (r_email recipient))) w)
      | Inr cs \<Rightarrow>
          (let message = \<lparr>m_from = sender_email env, m_to = r_email recipient, m_subject = snd cs,
                          m_html = html_content (fst cs) (c_sender_name campaign)\<rparr>;
               w1 = w\<lparr>sg_calls := Suc (sg_calls w), trace := trace w @ [SgSend message]\<rparr>
           in case sg_send env (sg_calls w) message of
                Response status_code \<Rightarrow> (status_code = 202, w1)
              | SendError \<Rightarrow> (False, emit (Log (SendFailed (r_email recipient))) w1)))"

section \<open>\<^verbatim>\<open>process_bulk_email_campaign\<close>\<close>

text \<open>
  An entry of \<^verbatim>\<open>results\<close> of \<^verbatim>\<open>asyncio.gather(*tasks, return_exceptions=True)\<close>:
  the value a task returned, or the exception it raised. \<^verbatim>\<open>send_single_email\<close> has
  no \<^verbatim>\<open>await\<close>, so the tasks of a batch run one after the other in the order of the batch.
\<close>

datatype task_result = Returned bool | RaisedException

fun gather :: "env \<Rightarrow> campaign \<Rightarrow> recipient list \<Rightarrow> world \<Rightarrow> task_result list \<times> world" where
  "gather env campaign [] w = ([], w)"
| "gather env campaign (r # rs) w =
     (case send_single_email env r campaign w of
        (b, w1) \<Rightarrow> (case gather env campaign rs w1 of (bs, w2) \<Rightarrow> (Returned b # bs, w2)))"

text \<open>\<^verbatim>\<open>for recipient, result in zip(batch, results)\<close> with the two counters.\<close>

fun update_statuses ::
  "env \<Rightarrow> (recipient \<times> task_result) list \<Rightarrow> int \<Rightarrow> int \<Rightarrow> world \<Rightarrow> (exn + int \<times> int) \<times> world" where
  "update_statuses env [] sent_count failed_count w = (Inr (sent_count, failed_count), w)"
| "update_statuses env ((recipient, result) # rest) sent_count failed_count w =
     (case result of
        RaisedException \<Rightarrow>
          (case recipients_update_one env (r_id recipient) ''failed'' w of
             (Inl e, w1) \<Rightarrow> (Inl e, w1)
           | (Inr u, w1) \<Rightarrow> update_statuses env rest sent_count (failed_count + 1) w1)
      | Returned b \<Rightarrow>
          if b then
            (case recipients_update_one env (r_id recipient) ''sent'' w of
               (Inl e, w1) \<Rightarrow> (Inl e, w1)
             | (Inr u, w1) \<Rightarrow> update_statuses env rest (sent_count + 1) failed_count w1)
          else
            (case recipients_update_one env (r_id recipient) ''failed'' w of
               (Inl e, w1) \<Rightarrow> (Inl e, w1)
             | (Inr u, w1) \<Rightarrow> update_statuses env rest sent_count (failed_count + 1) w1))"

definition batch_size :: nat where
  "batch_size = 10"

text \<open>The body of the \<^verbatim>\<open>for i in range(0, len(recipients), batch_size)\<close> loop up to the pause.\<close>

definition run_batch ::
  "env \<Rightarrow> campaign \<Rightarrow> recipient list \<Rightarrow> int \<Rightarrow> int \<Rightarrow> world \<Rightarrow> (exn + int \<times> int) \<times> world" where
  "run_batch env campaign batch sent_count failed_count w =
     (case gather env campaign batch (emit (Gather batch) w) of
        (results, w1) \<Rightarrow> update_statuses env (zip batch results) sent_count failed_count w1)"

function process_batches ::
  "env \<Rightarrow> campaign \<Rightarrow> recipient list \<Rightarrow> nat \<Rightarrow> int \<Rightarrow> int \<Rightarrow> world \<Rightarrow> (exn + int \<times> int) \<times> world" where
  "process_batches env campaign rs i sent_count failed_count w =
     (if i < length rs then
        (case run_batch env campaign (take batch_size (drop i rs)) sent_count failed_count w of
           (Inl e, w1) \<Rightarrow> (Inl e, w1)
         | (Inr (sent1, failed1), w1) \<Rightarrow>
             process_batches env campaign rs (i + batch_size) sent1 failed1
               (if i + batch_size < length rs then emit (Sleep 1) w1 else w1))
      else (Inr (sent_count, failed_count), w))"
  by pat_completeness auto
termination
  by (relation "measure (\<lambda>(env, campaign, rs, i, sent_count, failed_count, w). length rs - i)")
     (auto simp: batch_size_def)

text \<open>\<^verbatim>\<open>recipients = recipients[:5]\<close> in test mode.\<close>

definition limit_test_mode :: "bool \<Rightarrow> recipient list \<Rightarrow> recipient list" where
  "limit_test_mode test_mode rs = (if test_mode then take 5 rs else rs)"

text \<open>
  \<^verbatim>\<open>async for recipient_doc in recipients_cursor: recipients.append(Recipient(**recipient_doc))\<close>
  on the documents the cursor gives: they are validated in order and the first one that
  does not fit raises.
\<close>

fun read_recipients :: "env \<Rightarrow> recipient list \<Rightarrow> exn + recipient list" where
  "read_recipients env [] = Inr []"
| "read_recipients env (recipient_doc # docs) =
     (case validate_recipient env recipient_doc of
        Inl e \<Rightarrow> Inl e
      | Inr r \<Rightarrow> (case read_recipients env docs of Inl e \<Rightarrow> Inl e | Inr rs \<Rightarrow> Inr (r # rs)))"

text \<open>
  The \<^verbatim>\<open>try\<close> block: \<open>Inl\<close> is an exception that leaves it. The store operations
  can raise, and so can the construction of the \<^verbatim>\<open>Campaign\<close> object (before the
  write of \<^verbatim>\<open>sending\<close>) and of the \<^verbatim>\<open>Recipient\<close> objects (after it); the run
  goes on with the validated objects.
\<close>

definition run_body :: "env \<Rightarrow> string \<Rightarrow> bool \<Rightarrow> world \<Rightarrow> (exn + unit) \<times> world" where
  "run_body env campaign_id test_mode w =
     (case campaigns_find_one env campaign_id w of
        (Inl e, w1) \<Rightarrow> (Inl e, w1)
      | (Inr None, w1) \<Rightarrow> (Inr (), emit (Log (CampaignNotFound campaign_id)) w1)
      | (Inr (Some campaign_doc), w1) \<Rightarrow>
          (case validate_campaign env campaign_doc of
             Inl e \<Rightarrow> (Inl e, w1)
           | Inr campaign \<Rightarrow>
          (case campaigns_update_one env campaign_id
                  [SetStatus ''sending'', SetUpdatedAt (now env (db_ops w1))] w1 of
             (Inl e, w2) \<Rightarrow> (Inl e, w2)
           | (Inr u, w2) \<Rightarrow>
               (case recipients_find_pending env campaign_id w2 of
                  (Inl e, w3) \<Rightarrow> (Inl e, w3)
                | (Inr found, w3) \<Rightarrow>
               (case read_recipients env found of
                  Inl e \<Rightarrow> (Inl e, w3)
                | Inr rs \<Rightarrow>
                    (case process_batches env campaign (limit_test_mode test_mode rs) 0 0 0 w3 of
                       (Inl e, w4) \<Rightarrow> (Inl e, w4)
                     | (Inr (sent_count, failed_count), w4) \<Rightarrow>
                         (case campaigns_update_one env campaign_id
                                 [SetStatus (if failed_count = 0 then ''completed''
                                             else ''completed_with_errors''),
                                  SetSentCount sent_count,
                                  SetFailedCount failed_count,
                                  SetUpdatedAt (now env (db_ops w4))] w4 of
                            (Inl e, w5) \<Rightarrow> (Inl e, w5)
                          | (Inr u, w5) \<Rightarrow>
                              (Inr (), emit (Log (CampaignCompleted campaign_id sent_count failed_count)) w5))))))))"

text \<open>How the coroutine ends for its caller.\<close>

datatype completion = Returns | Raises exn

text \<open>The \<^verbatim>\<open>except Exception\<close> handler logs and writes the status \<^verbatim>\<open>failed\<close>.\<close>

definition process_bulk_email_campaign :: "env \<Rightarrow> string \<Rightarrow> bool \<Rightarrow> world \<Rightarrow> completion \<times> world" where
  "process_bulk_email_campaign env campaign_id test_mode w =
     (case run_body env campaign_id test_mode w of
        (Inr u, w1) \<Rightarrow> (Returns, w1)
      | (Inl e, w1) \<Rightarrow>
          (case campaigns_update_one env campaign_id
                  [SetStatus ''failed'', SetUpdatedAt (now env (db_ops w1))]
                  (emit (Log (CampaignError campaign_id)) w1) of
             (Inl e', w2) \<Rightarrow> (Raises e', w2)
           | (Inr u, w2) \<Rightarrow> (Returns, w2)))"


section \<open>Notions used in the statements\<close>

subsection \<open>Messages\<close>

text \<open>
  The personalized pair of a recipient, the personalization of one text, and the message
  built from the personalized pair. Personalization raises nothing (lemma
  \<open>personalize_personalized\<close> below), so the first case of \<open>personalized\<close> never applies.
\<close>

definition personalized :: "recipient \<Rightarrow> string \<times> string \<Rightarrow> string \<times> string" where
  "personalized recipient cs = (case personalize recipient cs of Inl e \<Rightarrow> cs | Inr out \<Rightarrow> out)"

definition personalized_one :: "recipient \<Rightarrow> string \<Rightarrow> string" where
  "personalized_one recipient text = fst (personalized recipient (text, []))"

definition build_message :: "env \<Rightarrow> recipient \<Rightarrow> campaign \<Rightarrow> mail" where
  "build_message env recipient campaign =
     (let cs = personalized recipient (c_content campaign, c_subject campaign)
      in \<lparr>m_from = sender_email env, m_to = r_email recipient, m_subject = snd cs,
          m_html = html_content (fst cs) (c_sender_name campaign)\<rparr>)"

subsection \<open>Replacing every occurrence\<close>

text \<open>
  The pieces of a text between the occurrences of \<open>old\<close> found from the left, as
  \<^verbatim>\<open>s.split(old)\<close> gives them, and the text with \<open>new\<close> in the place of each of
  these occurrences.
\<close>

function pieces :: "string \<Rightarrow> string \<Rightarrow> string list" where
  "pieces old [] = [[]]"
| "pieces old (c # cs) =
     (if old \<noteq> [] \<and> prefix old (c # cs)
      then [] # pieces old (drop (length old) (c # cs))
      else (case pieces old cs of [] \<Rightarrow> [[c]] | p # ps \<Rightarrow> (c # p) # ps))"
  by pat_completeness auto
termination
  by (relation "measure (\<lambda>(old, s). length s)") (auto simp: less_Suc_eq_le neq_Nil_conv)

definition replace_every :: "string \<Rightarrow> string \<Rightarrow> string \<Rightarrow> string" where
  "replace_every old new s = join new (pieces old s)"

text \<open>The replacements of a list of bindings, one after the other on the text so far.\<close>

definition one_by_one :: "(string \<times> string) list \<Rightarrow> string \<Rightarrow> string" where
  "one_by_one subs text = fold (\<lambda>(key, v) t. replace_every (placeholder key) v t) subs text"

subsection \<open>Templates\<close>

text \<open>
  A template seen as the specification sees it: literal text and placeholders. Its text
  is what the campaign stores.
\<close>

datatype segment = Lit string | Hole string

fun segment_text :: "segment \<Rightarrow> string" where
  "segment_text (Lit s) = s"
| "segment_text (Hole key) = placeholder key"

definition template_text :: "segment list \<Rightarrow> string" where
  "template_text segs = concat (map segment_text segs)"

definition brace_free :: "string \<Rightarrow> bool" where
  "brace_free s \<longleftrightarrow> CHR ''{'' \<notin> set s \<and> CHR ''}'' \<notin> set s"

text \<open>
  A text that opens no placeholder: it has no two opening braces in a row and does not
  end with an opening brace. Single braces, as in a style sheet, are allowed.
\<close>

fun no_open :: "string \<Rightarrow> bool" where
  "no_open [] = True"
| "no_open [c] = (c \<noteq> CHR ''{'')"
| "no_open (c # d # cs) = ((c \<noteq> CHR ''{'' \<or> d \<noteq> CHR ''{'') \<and> no_open (d # cs))"

fun proper_segment :: "segment \<Rightarrow> bool" where
  "proper_segment (Lit s) = no_open s"
| "proper_segment (Hole key) = brace_free key"

text \<open>
  In a proper template two opening braces always open a placeholder, and the keys of the
  placeholders have no brace.
\<close>

definition proper_template :: "segment list \<Rightarrow> bool" where
  "proper_template segs \<longleftrightarrow> list_all proper_segment segs"

text \<open>
  The substitutions of a recipient in the order the code applies them: the name when it
  is not empty, then the metadata entries with their values as strings.
\<close>

definition substitutions :: "recipient \<Rightarrow> (string \<times> string) list" where
  "substitutions recipient =
     (case r_name recipient of
        None \<Rightarrow> []
      | Some n \<Rightarrow> if n = [] then [] else [(''name'', n)])
     @ map (\<lambda>(key, v). (key, py_str v)) (metadata_items recipient)"

text \<open>
  A key with a closing brace does not start with the key of a placeholder of the template
  followed by a closing brace. Such a key would match text that begins at that
  placeholder; any other key with braces matches nothing in a proper template.
\<close>

definition key_stem :: "string \<Rightarrow> string" where
  "key_stem key = takeWhile (\<lambda>c. c \<noteq> CHR ''}'') key"

definition keys_fit :: "segment list \<Rightarrow> (string \<times> string) list \<Rightarrow> bool" where
  "keys_fit segs subs \<longleftrightarrow>
     list_all (\<lambda>(key, v). CHR ''}'' \<in> set key \<longrightarrow> Hole (key_stem key) \<notin> set segs) subs"

text \<open>
  The values bound to the placeholders of a template open no placeholder. The values of
  keys the template does not use are free.
\<close>

fun value_fits :: "(string \<times> string) list \<Rightarrow> segment \<Rightarrow> bool" where
  "value_fits subs (Lit s) = True"
| "value_fits subs (Hole key) = (case map_of subs key of None \<Rightarrow> True | Some v \<Rightarrow> no_open v)"

definition values_fit :: "segment list \<Rightarrow> (string \<times> string) list \<Rightarrow> bool" where
  "values_fit segs subs \<longleftrightarrow> list_all (value_fits subs) segs"

text \<open>A placeholder becomes the value bound to its key; without a binding it stays as it is.\<close>

fun fill :: "(string \<rightharpoonup> string) \<Rightarrow> segment \<Rightarrow> string" where
  "fill b (Lit s) = s"
| "fill b (Hole key) = (case b key of None \<Rightarrow> placeholder key | Some v \<Rightarrow> v)"

definition render :: "(string \<rightharpoonup> string) \<Rightarrow> segment list \<Rightarrow> string" where
  "render b segs = concat (map (fill b) segs)"

text \<open>
  The binding of the specification: \<^verbatim>\<open>recipient.name\<close> for the key \<^verbatim>\<open>name\<close>,
  \<^verbatim>\<open>recipient.metadata[key]\<close> for another key of the metadata.
\<close>

definition spec_binding :: "recipient \<Rightarrow> string \<rightharpoonup> string" where
  "spec_binding recipient key =
     (if key = ''name'' then r_name recipient
      else map_option py_str (map_of (metadata_items recipient) key))"

text \<open>A single quote, for the texts \<^verbatim>\<open>repr\<close> gives.\<close>

definition sq :: string where
  "sq = [CHR 0x27]"

subsection \<open>Runs\<close>

text \<open>A run starts on a store with its counters at zero and an empty trace.\<close>

definition start :: "campaign list \<Rightarrow> recipient list \<Rightarrow> world" where
  "start cs rs = \<lparr>campaigns = cs, recipients = rs, db_ops = 0, sg_calls = 0, trace = []\<rparr>"

definition store_up :: "env \<Rightarrow> bool" where
  "store_up env \<longleftrightarrow> (\<forall>n. \<not> db_fault env n)"

definition pending :: "string \<Rightarrow> recipient list \<Rightarrow> recipient list" where
  "pending cid rs = filter (\<lambda>r. r_campaign_id r = Some cid \<and> r_status r = ''pending'') rs"

definition selected :: "string \<Rightarrow> bool \<Rightarrow> recipient list \<Rightarrow> recipient list" where
  "selected cid test_mode rs = limit_test_mode test_mode (pending cid rs)"

text \<open>
  The stored documents a run reads fit their models: validation gives back the campaign
  with the id of the run and every pending recipient of that campaign.
\<close>

definition documents_valid :: "env \<Rightarrow> string \<Rightarrow> campaign list \<Rightarrow> recipient list \<Rightarrow> bool" where
  "documents_valid env cid cs rs \<longleftrightarrow>
     (case find (\<lambda>c. c_id c = cid) cs of
        None \<Rightarrow> True
      | Some c \<Rightarrow> validate_campaign env c = Inr c)
     \<and> list_all (\<lambda>r. validate_recipient env r = Inr r) (pending cid rs)"

fun accepted :: "sg_outcome \<Rightarrow> bool" where
  "accepted (Response status_code) = (status_code = 202)"
| "accepted SendError = False"

text \<open>Whether the sends to the recipients succeed, the first of them being call \<open>n\<close>.\<close>

fun send_results :: "env \<Rightarrow> campaign \<Rightarrow> nat \<Rightarrow> recipient list \<Rightarrow> bool list" where
  "send_results env c n [] = []"
| "send_results env c n (r # rs) =
     accepted (sg_send env n (build_message env r c)) # send_results env c (Suc n) rs"

definition status_of :: "bool \<Rightarrow> string" where
  "status_of b = (if b then ''sent'' else ''failed'')"

fun campaign_writes :: "event list \<Rightarrow> (string \<times> campaign_set list) list" where
  "campaign_writes [] = []"
| "campaign_writes (CampaignUpdate cid fs # es) = (cid, fs) # campaign_writes es"
| "campaign_writes (e # es) = campaign_writes es"

fun statuses_set :: "campaign_set list \<Rightarrow> string list" where
  "statuses_set [] = []"
| "statuses_set (SetStatus s # fs) = s # statuses_set fs"
| "statuses_set (f # fs) = statuses_set fs"

text \<open>The campaign status values a trace writes, in order.\<close>

definition status_writes :: "event list \<Rightarrow> string list" where
  "status_writes es = concat (map (\<lambda>(cid, fs). statuses_set fs) (campaign_writes es))"

fun recipient_writes :: "event list \<Rightarrow> (string \<times> string) list" where
  "recipient_writes [] = []"
| "recipient_writes (RecipientUpdate rid st # es) = (rid, st) # recipient_writes es"
| "recipient_writes (e # es) = recipient_writes es"

fun gathered :: "event list \<Rightarrow> recipient list list" where
  "gathered [] = []"
| "gathered (Gather batch # es) = batch # gathered es"
| "gathered (e # es) = gathered es"

fun sent_mails :: "event list \<Rightarrow> mail list" where
  "sent_mails [] = []"
| "sent_mails (SgSend m # es) = m # sent_mails es"
| "sent_mails (e # es) = sent_mails es"

subsection \<open>Helpers of the proofs\<close>

text \<open>No occurrence of \<open>old\<close> begins in a piece before the occurrence that ends the piece.\<close>

fun leftmost :: "string \<Rightarrow> string list \<Rightarrow> bool" where
  "leftmost old [] = True"
| "leftmost old [p] = (\<not> sublist old p)"
| "leftmost old (p # q # ps) = (\<not> sublist old (p @ butlast old) \<and> leftmost old (q # ps))"

definition apply_subs :: "(string \<times> string) list \<Rightarrow> string \<Rightarrow> string" where
  "apply_subs subs text = fold (\<lambda>(key, v) t. py_replace t (placeholder key) v) subs text"

fun subst_segment :: "string \<Rightarrow> string \<Rightarrow> segment \<Rightarrow> segment" where
  "subst_segment a v (Lit s) = Lit s"
| "subst_segment a v (Hole key) = (if key = a then Lit v else Hole key)"

text \<open>What a run from a store leaves behind, and how it ends for its caller.\<close>

definition run_world :: "env \<Rightarrow> string \<Rightarrow> bool \<Rightarrow> campaign list \<Rightarrow> recipient list \<Rightarrow> world" where
  "run_world env cid test_mode cs rs = snd (process_bulk_email_campaign env cid test_mode (start cs rs))"

definition run_completion :: "env \<Rightarrow> string \<Rightarrow> bool \<Rightarrow> campaign list \<Rightarrow> recipient list \<Rightarrow> completion" where
  "run_completion env cid test_mode cs rs = fst (process_bulk_email_campaign env cid test_mode (start cs rs))"

text \<open>The recipient collection after the status writes of a list of send results.\<close>

fun record_outcomes :: "(recipient \<times> bool) list \<Rightarrow> recipient list \<Rightarrow> recipient list" where
  "record_outcomes [] docs = docs"
| "record_outcomes ((r, b) # rest) docs =
     record_outcomes rest (update_first (\<lambda>d. r_id d = r_id r) (\<lambda>d. d\<lparr>r_status := status_of b\<rparr>) docs)"

text \<open>The same writes seen from one document: each write with its id sets its status.\<close>

fun mark :: "(recipient \<times> bool) list \<Rightarrow> recipient \<Rightarrow> recipient" where
  "mark [] d = d"
| "mark ((r, b) # ps) d = mark ps (if r_id d = r_id r then d\<lparr>r_status := status_of b\<rparr> else d)"

text \<open>The events of one send, of the sends of a batch, of a batch and of the whole loop.\<close>

fun send_events :: "env \<Rightarrow> campaign \<Rightarrow> nat \<Rightarrow> recipient \<Rightarrow> event list" where
  "send_events env c n r =
     SgSend (build_message env r c)
     # (case sg_send env n (build_message env r c) of
          Response status_code \<Rightarrow> []
        | SendError \<Rightarrow> [Log (SendFailed (r_email r))])"

fun gather_events :: "env \<Rightarrow> campaign \<Rightarrow> nat \<Rightarrow> recipient list \<Rightarrow> event list" where
  "gather_events env c n [] = []"
| "gather_events env c n (r # rs) = send_events env c n r @ gather_events env c (Suc n) rs"

definition batch_events :: "env \<Rightarrow> campaign \<Rightarrow> nat \<Rightarrow> recipient list \<Rightarrow> event list" where
  "batch_events env c n batch =
     Gather batch # gather_events env c n batch
     @ map (\<lambda>(r, b). RecipientUpdate (r_id r) (status_of b)) (zip batch (send_results env c n batch))"

function loop_events :: "env \<Rightarrow> campaign \<Rightarrow> nat \<Rightarrow> recipient list \<Rightarrow> nat \<Rightarrow> event list" where
  "loop_events env c n rs i =
     (if i < length rs then
        batch_events env c n (take batch_size (drop i rs))
        @ (if i + batch_size < length rs then [Sleep 1] else [])
        @ loop_events env c (n + length (take batch_size (drop i rs))) rs (i + batch_size)
      else [])"
  by pat_completeness auto
termination
  by (relation "measure (\<lambda>(env, c, n, rs, i). length rs - i)") (auto simp: batch_size_def)

text \<open>The slices \<^verbatim>\<open>recipients[i:i + batch_size]\<close> the loop visits from index \<open>i\<close> on.\<close>

function batches_from :: "nat \<Rightarrow> 'a list \<Rightarrow> 'a list list" where
  "batches_from i rs =
     (if i < length rs then take batch_size (drop i rs) # batches_from (i + batch_size) rs else [])"
  by pat_completeness auto
termination
  by (relation "measure (\<lambda>(i, rs). length rs - i)") (auto simp: batch_size_def)

text \<open>The two \<^verbatim>\<open>$set\<close> documents of a run that meets no store error.\<close>

definition sending_set :: "env \<Rightarrow> campaign_set list" where
  "sending_set env = [SetStatus ''sending'', SetUpdatedAt (now env 1)]"

definition final_set :: "env \<Rightarrow> campaign \<Rightarrow> recipient list \<Rightarrow> campaign_set list" where
  "final_set env c sel =
     [SetStatus (if int (length (filter Not (send_results env c 0 sel))) = 0 then ''completed''
                 else ''completed_with_errors''),
      SetSentCount (int (length (filter id (send_results env c 0 sel)))),
      SetFailedCount (int (length (filter Not (send_results env c 0 sel)))),
      SetUpdatedAt (now env (3 + length sel))]"

text \<open>A small store and environment for the concrete instances: the first provider call raises.\<close>

definition demo_recipient :: "string \<Rightarrow> string option \<Rightarrow> string \<Rightarrow> recipient" where
  "demo_recipient rid nm st =
     \<lparr>r_id = rid, r_email = rid @ ''@example.com'', r_name = nm, r_metadata = Some [],
      r_campaign_id = Some ''c1'', r_status = st\<rparr>"

definition demo_campaign :: campaign where
  "demo_campaign =
     \<lparr>c_id = ''c1'', c_name = ''Launch'', c_subject = ''Hi {{name}}'', c_content = ''Hello {{name}}'',
      c_sender_name = ''Team'', c_status = ''draft'', c_total_recipients = 3, c_sent_count = 0,
      c_failed_count = 0, c_updated_at = 0\<rparr>"

definition demo_store :: "recipient list" where
  "demo_store =
     [demo_recipient ''a'' (Some ''Ana'') ''pending'', demo_recipient ''b'' None ''pending'',
      demo_recipient ''z'' None ''sent'']"

definition demo_six :: "recipient list" where
  "demo_six = map (\<lambda>rid. demo_recipient rid None ''pending'') [''a'', ''b'', ''c'', ''d'', ''e'', ''f'']"

definition demo_twelve :: "recipient list" where
  "demo_twelve = map (\<lambda>rid. demo_recipient rid None ''pending'')
     [''r00'', ''r01'', ''r02'', ''r03'', ''r04'', ''r05'', ''r06'', ''r07'', ''r08'', ''r09'', ''r10'', ''r11'']"

definition demo_env :: env where
  "demo_env =
     \<lparr>sender_email = Some ''noreply@example.com'',
      sg_send = (\<lambda>n m. if n = 0 then SendError else Response 202),
      db_fault = (\<lambda>n. False),
      now = (\<lambda>n. 100 + n),
      validate_campaign = Inr,
      validate_recipient = Inr\<rparr>"

text \<open>The result and the world of the \<^verbatim>\<open>try\<close> block of a run from a store.\<close>

definition body_result :: "env \<Rightarrow> string \<Rightarrow> bool \<Rightarrow> campaign list \<Rightarrow> recipient list \<Rightarrow> exn + unit" where
  "body_result env cid test_mode cs rs = fst (run_body env cid test_mode (start cs rs))"

definition body_world :: "env \<Rightarrow> string \<Rightarrow> bool \<Rightarrow> campaign list \<Rightarrow> recipient list \<Rightarrow> world" where
  "body_world env cid test_mode cs rs = snd (run_body env cid test_mode (start cs rs))"

text \<open>Two worlds with the same campaign documents and the same campaign writes so far.\<close>

definition same_campaigns :: "world \<Rightarrow> world \<Rightarrow> bool" where
  "same_campaigns w w1 \<longleftrightarrow>
     campaigns w1 = campaigns w \<and> campaign_writes (trace w1) = campaign_writes (trace w)"

text \<open>
  Environments with store errors: every operation raises; the second operation (the
  write of \<^verbatim>\<open>sending\<close>) raises; the fifth operation (the second status write) raises.
\<close>

definition store_down_env :: env where
  "store_down_env = demo_env\<lparr>db_fault := (\<lambda>n. True)\<rparr>"

definition sending_fault_env :: env where
  "sending_fault_env = demo_env\<lparr>db_fault := (\<lambda>n. n = 1)\<rparr>"

definition late_fault_env :: env where
  "late_fault_env = demo_env\<lparr>db_fault := (\<lambda>n. n = 4)\<rparr>"

text \<open>
  Environments with documents that do not fit their model: every campaign document, and
  the recipient document with id \<^verbatim>\<open>b\<close>.
\<close>

definition invalid_campaign_env :: env where
  "invalid_campaign_env = demo_env\<lparr>validate_campaign := (\<lambda>c. Inl ValidationError)\<rparr>"

definition invalid_recipient_env :: env where
  "invalid_recipient_env =
     demo_env\<lparr>validate_recipient := (\<lambda>r. if r_id r = ''b'' then Inl ValidationError else Inr r)\<rparr>"


declare process_batches.simps [simp del]
declare loop_events.simps [simp del]
declare batches_from.simps [simp del]
declare send_events.simps [simp del]
declare digits.simps [simp del]

section \<open>Personalization: proofs\<close>

lemma placeholder_not_Nil: "placeholder a \<noteq> []"
  by (simp add: placeholder_def)

lemma py_replace_placeholder: "py_replace s (placeholder a) v = replace_scan (placeholder a) v s"
  by (simp add: py_replace_def placeholder_not_Nil)

lemma replace_scan_skip:
  "no_open l \<Longrightarrow> replace_scan (placeholder a) v (l @ X) = l @ replace_scan (placeholder a) v X"
  by (induction l rule: no_open.induct) (auto simp: placeholder_def)

lemma replace_scan_hit:
  "replace_scan (placeholder a) v (placeholder a @ X) = v @ replace_scan (placeholder a) v X"
  by (simp add: placeholder_def)

lemma key_prefix_eq:
  "CHR ''}'' \<notin> set a \<Longrightarrow> CHR ''}'' \<notin> set k \<Longrightarrow> prefix (a @ CHR ''}'' # Y) (k @ CHR ''}'' # Z) \<Longrightarrow> a = k"
proof (induction a arbitrary: k)
  case Nil
  then show ?case by (cases k) auto
next
  case (Cons c a)
  then show ?case by (cases k) auto
qed

lemma no_open_key: "brace_free k \<Longrightarrow> no_open (k @ ''}}'')"
  by (induction k rule: no_open.induct) (auto simp: brace_free_def)

lemma key_stem_split: "\<exists>Y. a @ ''}}'' = key_stem a @ CHR ''}'' # Y"
  by (induction a) (auto simp: key_stem_def)

lemma key_stem_closed: "CHR ''}'' \<notin> set (key_stem a)"
  by (induction a) (auto simp: key_stem_def)

lemma key_stem_id: "CHR ''}'' \<notin> set a \<Longrightarrow> key_stem a = a"
  by (induction a) (auto simp: key_stem_def)

lemma replace_scan_miss:
  assumes "brace_free k" "key_stem a \<noteq> k"
  shows "replace_scan (placeholder a) v (placeholder k @ X) = placeholder k @ replace_scan (placeholder a) v X"
proof -
  have kc: "CHR ''}'' \<notin> set k" using assms(1) by (simp add: brace_free_def)
  obtain Y where Y: "a @ ''}}'' = key_stem a @ CHR ''}'' # Y"
    using key_stem_split by blast
  have n1: "\<not> prefix (placeholder a) (placeholder k @ X)"
  proof
    assume "prefix (placeholder a) (placeholder k @ X)"
    then have "prefix (a @ ''}}'') (k @ CHR ''}'' # (CHR ''}'' # X))"
      by (simp add: placeholder_def)
    then have "prefix (key_stem a @ CHR ''}'' # Y) (k @ CHR ''}'' # (CHR ''}'' # X))"
      by (simp only: Y)
    from key_prefix_eq[OF key_stem_closed kc this] assms(2) show False by simp
  qed
  have n2: "\<not> prefix (placeholder a) (CHR ''{'' # k @ ''}}'' @ X)"
    using assms(1) by (cases k) (auto simp: placeholder_def brace_free_def)
  have "replace_scan (placeholder a) v (placeholder k @ X)
        = CHR ''{'' # CHR ''{'' # replace_scan (placeholder a) v ((k @ ''}}'') @ X)"
    using n1 n2 by (simp add: placeholder_def)
  also have "\<dots> = CHR ''{'' # CHR ''{'' # (k @ ''}}'') @ replace_scan (placeholder a) v X"
    using replace_scan_skip[OF no_open_key[OF assms(1)]] by simp
  finally show ?thesis by (simp add: placeholder_def)
qed

lemma replace_scan_template:
  "proper_template segs \<Longrightarrow> (CHR ''}'' \<in> set a \<longrightarrow> Hole (key_stem a) \<notin> set segs) \<Longrightarrow>
   replace_scan (placeholder a) v (template_text segs) = template_text (map (subst_segment a v) segs)"
proof (induction segs)
  case Nil
  then show ?case by (simp add: template_text_def)
next
  case (Cons seg segs)
  then have ih: "replace_scan (placeholder a) v (template_text segs) = template_text (map (subst_segment a v) segs)"
    by (simp add: proper_template_def)
  show ?case
  proof (cases seg)
    case (Lit s)
    then have "no_open s" using Cons.prems by (simp add: proper_template_def)
    then show ?thesis using Lit ih replace_scan_skip[of s a v "template_text segs"]
      by (simp add: template_text_def)
  next
    case (Hole k)
    then have bk: "brace_free k" using Cons.prems by (simp add: proper_template_def)
    show ?thesis
    proof (cases "k = a")
      case True
      then show ?thesis using Hole ih replace_scan_hit[of a v "template_text segs"]
        by (simp add: template_text_def)
    next
      case False
      have "key_stem a \<noteq> k"
      proof (cases "CHR ''}'' \<in> set a")
        case True
        with Cons.prems(2) Hole show ?thesis by auto
      next
        case False
        with \<open>k \<noteq> a\<close> show ?thesis by (simp add: key_stem_id)
      qed
      from replace_scan_miss[OF bk this, of v "template_text segs"] False Hole ih
      show ?thesis by (auto simp add: template_text_def)
    qed
  qed
qed

lemma hole_subst_segment:
  "Hole h \<in> set (map (subst_segment a v) segs) \<Longrightarrow> Hole h \<in> set segs"
proof (induction segs)
  case Nil
  then show ?case by simp
next
  case (Cons seg segs)
  then show ?case by (cases seg) (auto split: if_splits)
qed

lemma keys_fit_subst_segment:
  "keys_fit segs subs \<Longrightarrow> keys_fit (map (subst_segment a v) segs) subs"
  unfolding keys_fit_def list_all_iff using hole_subst_segment by fast

lemma proper_subst_segment:
  "proper_template segs \<Longrightarrow> values_fit segs ((a, v) # rest) \<Longrightarrow>
   proper_template (map (subst_segment a v) segs)"
proof (induction segs)
  case Nil
  then show ?case by (simp add: proper_template_def)
next
  case (Cons seg segs)
  then show ?case
    by (cases seg) (auto simp: proper_template_def values_fit_def)
qed

lemma values_fit_subst_segment:
  "values_fit segs ((a, v) # rest) \<Longrightarrow> values_fit (map (subst_segment a v) segs) rest"
proof (induction segs)
  case Nil
  then show ?case by (simp add: values_fit_def)
next
  case (Cons seg segs)
  then show ?case
    by (cases seg) (auto simp: values_fit_def)
qed

lemma fill_subst_segment:
  "fill (map_of rest) (subst_segment a v seg) = fill (map_of ((a, v) # rest)) seg"
  by (cases seg) auto

lemma render_Nil_binding: "render Map.empty segs = template_text segs"
proof -
  have "fill Map.empty seg = segment_text seg" for seg by (cases seg) auto
  then have "fill Map.empty = segment_text" by (intro ext)
  then show ?thesis by (simp add: render_def template_text_def)
qed

lemma apply_subs_render:
  "proper_template segs \<Longrightarrow> keys_fit segs subs \<Longrightarrow> values_fit segs subs \<Longrightarrow>
   apply_subs subs (template_text segs) = render (map_of subs) segs"
proof (induction subs arbitrary: segs)
  case Nil
  then show ?case by (simp add: apply_subs_def render_Nil_binding)
next
  case (Cons kv subs)
  obtain a v where kv: "kv = (a, v)" by (cases kv)
  from Cons.prems kv have ca: "CHR ''}'' \<in> set a \<longrightarrow> Hole (key_stem a) \<notin> set segs"
    and ks: "keys_fit segs subs"
    by (auto simp: keys_fit_def)
  from Cons.prems(3) have vf: "values_fit segs ((a, v) # subs)" by (simp add: kv)
  have "apply_subs (kv # subs) (template_text segs)
        = apply_subs subs (replace_scan (placeholder a) v (template_text segs))"
    by (simp add: apply_subs_def kv py_replace_placeholder)
  also have "\<dots> = apply_subs subs (template_text (map (subst_segment a v) segs))"
    by (simp add: replace_scan_template[OF Cons.prems(1) ca])
  also have "\<dots> = render (map_of subs) (map (subst_segment a v) segs)"
    by (rule Cons.IH[OF proper_subst_segment[OF Cons.prems(1) vf] keys_fit_subst_segment[OF ks]
          values_fit_subst_segment[OF vf]])
  also have "\<dots> = render (map_of (kv # subs)) segs"
    unfolding render_def kv map_map comp_def fill_subst_segment ..
  finally show ?case .
qed

lemma metadata_loop_apply_subs:
  "metadata_loop md cs =
     Inr (apply_subs (map (\<lambda>(key, v). (key, py_str v)) md) (fst cs),
          apply_subs (map (\<lambda>(key, v). (key, py_str v)) md) (snd cs))"
  by (induction md cs rule: metadata_loop.induct)
     (simp_all add: apply_subs_def replace_both_def str_replace_def)

lemma placeholder_name: "placeholder ''name'' = ''{{name}}''"
  by (simp add: placeholder_def)

lemma personalize_apply_subs:
  "personalize r cs = Inr (apply_subs (substitutions r) (fst cs), apply_subs (substitutions r) (snd cs))"
  by (cases "r_name r")
     (auto simp: personalize_def name_step_def substitutions_def metadata_loop_apply_subs
        apply_subs_def placeholder_name replace_both_def str_replace_def)

lemma personalized_apply_subs:
  "personalized r cs = (apply_subs (substitutions r) (fst cs), apply_subs (substitutions r) (snd cs))"
  by (simp add: personalized_def personalize_apply_subs)

lemma personalize_personalized: "personalize r cs = Inr (personalized r cs)"
  by (simp add: personalize_apply_subs personalized_apply_subs)

lemma personalized_one_apply_subs: "personalized_one r t = apply_subs (substitutions r) t"
  by (simp add: personalized_one_def personalized_apply_subs)

lemma replace_scan_absent:
  "\<not> sublist old t \<Longrightarrow> replace_scan old new t = t"
proof (induction t)
  case Nil
  then show ?case by simp
next
  case (Cons c t)
  have "\<not> prefix old (c # t)"
    using Cons.prems by (meson prefix_imp_sublist)
  moreover have "\<not> sublist old t"
    using Cons.prems by (meson sublist_Cons_right)
  ultimately show ?case using Cons.IH by simp
qed

lemma apply_subs_absent:
  "list_all (\<lambda>(key, v). \<not> sublist (placeholder key) t) subs \<Longrightarrow> apply_subs subs t = t"
  by (induction subs) (auto simp: apply_subs_def py_replace_placeholder replace_scan_absent)

lemma pieces_not_Nil: "pieces old s \<noteq> []"
  by (induction old s rule: pieces.induct) (auto split: list.splits)

lemma join_Cons: "ps \<noteq> [] \<Longrightarrow> join sep (p # ps) = p @ sep @ join sep ps"
  by (cases ps) simp_all

lemma join_Cons_char: "join sep ((c # p) # ps) = c # join sep (p # ps)"
  by (cases ps) simp_all

lemma replace_scan_pieces:
  "old \<noteq> [] \<Longrightarrow> replace_scan old new s = join new (pieces old s)"
proof (induction old new s rule: replace_scan.induct)
  case (1 old new)
  then show ?case by simp
next
  case (2 old new c cs)
  show ?case
  proof (cases "prefix old (c # cs)")
    case True
    with 2 show ?thesis by (simp add: join_Cons pieces_not_Nil)
  next
    case False
    obtain p ps where pp: "pieces old cs = p # ps"
      using pieces_not_Nil[of old cs] by (cases "pieces old cs") auto
    with 2 False show ?thesis by (simp add: join_Cons_char)
  qed
qed

lemma join_pieces: "old \<noteq> [] \<Longrightarrow> join old (pieces old s) = s"
proof (induction old s rule: pieces.induct)
  case (1 old)
  then show ?case by simp
next
  case (2 old c cs)
  show ?case
  proof (cases "prefix old (c # cs)")
    case True
    then have "old @ drop (length old) (c # cs) = c # cs"
      by (metis append_eq_conv_conj prefixE)
    with 2 True show ?thesis by (simp add: join_Cons pieces_not_Nil)
  next
    case False
    obtain p ps where pp: "pieces old cs = p # ps"
      using pieces_not_Nil[of old cs] by (cases "pieces old cs") auto
    with 2 False show ?thesis by (simp add: join_Cons_char)
  qed
qed


lemma not_sublist_butlast: "old \<noteq> [] \<Longrightarrow> \<not> sublist old (butlast old)"
proof
  assume "old \<noteq> []" and "sublist old (butlast old)"
  then have "length old \<le> length old - 1" by (metis length_butlast sublist_length_le)
  moreover from \<open>old \<noteq> []\<close> have "0 < length old" by simp
  ultimately show False by arith
qed

lemma leftmost_pieces: "old \<noteq> [] \<Longrightarrow> leftmost old (pieces old s)"
proof (induction old s rule: pieces.induct)
  case (1 old)
  then show ?case by simp
next
  case (2 old c cs)
  show ?case
  proof (cases "prefix old (c # cs)")
    case True
    obtain q qs where qq: "pieces old (drop (length old) (c # cs)) = q # qs"
      using pieces_not_Nil[of old "drop (length old) (c # cs)"]
      by (cases "pieces old (drop (length old) (c # cs))") auto
    with 2 True show ?thesis by (simp add: not_sublist_butlast)
  next
    case False
    obtain p ps where pp: "pieces old cs = p # ps"
      using pieces_not_Nil[of old cs] by (cases "pieces old cs") auto
    from 2 False have ih: "leftmost old (p # ps)" by (simp add: pp)
    have cs: "cs = join old (p # ps)"
      using join_pieces[OF 2(3), of cs] by (simp add: pp)
    show ?thesis
    proof (cases ps)
      case Nil
      with cs have "cs = p" by simp
      with ih Nil False have "\<not> sublist old (c # p)"
        by (simp add: sublist_Cons_right)
      with 2 False pp Nil show ?thesis by simp
    next
      case (Cons q qs)
      with cs have "c # cs = (c # p @ butlast old) @ [last old] @ join old (q # qs)"
        using 2(3) by simp
      then have "prefix (c # p @ butlast old) (c # cs)"
        by (metis prefixI)
      with False have "\<not> prefix old (c # p @ butlast old)"
        by (meson prefix_order.trans)
      with ih Cons have "\<not> sublist old ((c # p) @ butlast old)" and "leftmost old (q # qs)"
        by (simp_all add: sublist_Cons_right)
      with 2 False pp Cons show ?thesis by simp
    qed
  qed
qed

lemma leftmost_nth:
  "leftmost old ps \<Longrightarrow> i < length ps \<Longrightarrow>
   \<not> sublist old (ps ! i @ (if Suc i < length ps then butlast old else []))"
proof (induction old ps arbitrary: i rule: leftmost.induct)
  case (1 old)
  then show ?case by simp
next
  case (2 old p)
  then show ?case by simp
next
  case (3 old p q ps)
  show ?case
  proof (cases i)
    case 0
    with 3 show ?thesis by simp
  next
    case (Suc j)
    with 3 show ?thesis by simp
  qed
qed

lemma apply_subs_one_by_one: "apply_subs subs t = one_by_one subs t"
  by (simp add: apply_subs_def one_by_one_def py_replace_placeholder replace_scan_pieces
        placeholder_not_Nil replace_every_def)

lemma map_of_py_str:
  "map_of (map (\<lambda>(key, v). (key, py_str v)) md) = map_option py_str \<circ> map_of md"
  by (induction md) (auto simp: fun_eq_iff)

text \<open>
  Claim C3, as amended. Personalization treats subject and body independently: each
  comes out as it would alone. It applies the bindings of the recipient one after the
  other (the name when it is not empty, then the metadata entries in their order, the
  values as strings), each time replacing every occurrence of the placeholder of the key,
  found from the left, in the text produced so far: the text is cut into the pieces
  between these occurrences, and no occurrence begins in a piece before the one that
  ends it. On a proper template (two opening braces always open a placeholder with a
  brace-free key; single braces are free), for a recipient none of whose keys starts
  with the key of a placeholder of the template followed by a closing brace, and whose
  values for the placeholders of the template open no placeholder, every placeholder is
  therefore replaced by the value bound to its key, and a placeholder without binding
  stays as it is. For every recipient, a text in which no placeholder of a bound key
  occurs comes back unchanged.
\<close>

theorem personalization_proper:
  "personalize r (c, s) = Inr (personalized_one r c, personalized_one r s)
   \<and> personalized_one r t = one_by_one (substitutions r) t
   \<and> (old \<noteq> [] \<longrightarrow>
        join old (pieces old u) = u
        \<and> (\<forall>i < length (pieces old u).
              \<not> sublist old (pieces old u ! i
                    @ (if Suc i < length (pieces old u) then butlast old else []))))
   \<and> (proper_template segs \<and> keys_fit segs (substitutions r) \<and> values_fit segs (substitutions r) \<longrightarrow>
        personalized_one r (template_text segs) = render (map_of (substitutions r)) segs)
   \<and> (list_all (\<lambda>(key, v). \<not> sublist (placeholder key) t) (substitutions r) \<longrightarrow>
        personalized_one r t = t)"
proof -
  have a: "personalize r (c, s) = Inr (personalized_one r c, personalized_one r s)"
    by (simp add: personalize_apply_subs personalized_one_apply_subs)
  have b: "personalized_one r t = one_by_one (substitutions r) t"
    by (simp add: personalized_one_apply_subs apply_subs_one_by_one)
  have c: "join old (pieces old u) = u
        \<and> (\<forall>i < length (pieces old u).
              \<not> sublist old (pieces old u ! i
                    @ (if Suc i < length (pieces old u) then butlast old else [])))"
    if "old \<noteq> []"
    using join_pieces[OF that] leftmost_nth[OF leftmost_pieces[OF that]] by blast
  have d: "personalized_one r (template_text segs) = render (map_of (substitutions r)) segs"
    if "proper_template segs" "keys_fit segs (substitutions r)" "values_fit segs (substitutions r)"
    using that by (simp add: personalized_one_apply_subs apply_subs_render)
  have e: "personalized_one r t = t"
    if "list_all (\<lambda>(key, v). \<not> sublist (placeholder key) t) (substitutions r)"
    using that by (simp add: personalized_one_apply_subs apply_subs_absent)
  from a b c d e show ?thesis by blast
qed

theorem personalization_proper_witness:
  "proper_template [Lit ''p {margin: 0} Hi '', Hole ''name'', Lit '', '', Hole ''missing'']
   \<and> keys_fit [Lit ''p {margin: 0} Hi '', Hole ''name'', Lit '', '', Hole ''missing'']
        (substitutions
        \<lparr>r_id = ''r1'', r_email = ''ana@example.com'', r_name = Some ''Ana'',
         r_metadata = Some [(''city'', PStr ''Lima''), (''we{rd'', PStr ''{{city}}''), (''odd}key'', PInt 3)],
         r_campaign_id = Some ''c1'', r_status = ''pending''\<rparr>)
   \<and> values_fit [Lit ''p {margin: 0} Hi '', Hole ''name'', Lit '', '', Hole ''missing'']
        (substitutions
        \<lparr>r_id = ''r1'', r_email = ''ana@example.com'', r_name = Some ''Ana'',
         r_metadata = Some [(''city'', PStr ''Lima''), (''we{rd'', PStr ''{{city}}''), (''odd}key'', PInt 3)],
         r_campaign_id = Some ''c1'', r_status = ''pending''\<rparr>)
   \<and> list_all (\<lambda>(key, v). \<not> sublist (placeholder key) ''50% {off'') (substitutions
        \<lparr>r_id = ''r1'', r_email = ''ana@example.com'', r_name = Some ''Ana'',
         r_metadata = Some [(''city'', PStr ''Lima''), (''we{rd'', PStr ''{{city}}''), (''odd}key'', PInt 3)],
         r_campaign_id = Some ''c1'', r_status = ''pending''\<rparr>)
   \<and> personalize
        \<lparr>r_id = ''r1'', r_email = ''ana@example.com'', r_name = Some ''Ana'',
         r_metadata = Some [(''city'', PStr ''Lima''), (''we{rd'', PStr ''{{city}}''), (''odd}key'', PInt 3)],
         r_campaign_id = Some ''c1'', r_status = ''pending''\<rparr>
        (template_text [Lit ''p {margin: 0} Hi '', Hole ''name'', Lit '', '', Hole ''missing''],
         ''50% {off'')
       = Inr (''p {margin: 0} Hi Ana, {{missing}}'', ''50% {off'')
   \<and> ''{{name}}'' \<noteq> []
   \<and> join ''{{name}}'' (pieces ''{{name}}'' ''Hi {{name}}, {{name}}!'') = ''Hi {{name}}, {{name}}!''"
proof -
  let ?r = "\<lparr>r_id = ''r1'', r_email = ''ana@example.com'', r_name = Some ''Ana'',
         r_metadata = Some [(''city'', PStr ''Lima''), (''we{rd'', PStr ''{{city}}''), (''odd}key'', PInt 3)],
         r_campaign_id = Some ''c1'', r_status = ''pending''\<rparr>"
  let ?segs = "[Lit ''p {margin: 0} Hi '', Hole ''name'', Lit '', '', Hole ''missing'']"
  have d3: "digits 3 = ''3''" by code_simp
  have s: "substitutions ?r
      = [(''name'', ''Ana''), (''city'', ''Lima''), (''we{rd'', ''{{city}}''), (''odd}key'', ''3'')]"
    by (simp add: substitutions_def metadata_items_def int_text_def d3)
  have p1: "proper_template ?segs"
    by (simp add: proper_template_def brace_free_def)
  have p2: "keys_fit ?segs (substitutions ?r)"
    by (simp add: s keys_fit_def key_stem_def)
  have p3: "values_fit ?segs (substitutions ?r)"
    by (simp add: s values_fit_def)
  have n1: "\<not> sublist ''{{name}}'' ''50% {off''" by code_simp
  have n2: "\<not> sublist ''{{city}}'' ''50% {off''" by code_simp
  have n3: "\<not> sublist ''{{we{rd}}'' ''50% {off''" by code_simp
  have n4: "\<not> sublist ''{{odd}key}}'' ''50% {off''" by code_simp
  have p4: "list_all (\<lambda>(key, v). \<not> sublist (placeholder key) ''50% {off'') (substitutions ?r)"
    using n1 n2 n3 n4 by (simp add: s placeholder_def)
  have r1: "render (map_of (substitutions ?r)) ?segs = ''p {margin: 0} Hi Ana, {{missing}}''"
    by (simp add: s render_def placeholder_def)
  have o: "''{{name}}'' \<noteq> []" by simp
  note t = personalization_proper[where r = ?r and c = "template_text ?segs" and s = "''50% {off''"
        and segs = ?segs and t = "''50% {off''" and old = "''{{name}}''"
        and u = "''Hi {{name}}, {{name}}!''"]
  from t have i: "personalize ?r (template_text ?segs, ''50% {off'')
      = Inr (personalized_one ?r (template_text ?segs), personalized_one ?r ''50% {off'')"
    by blast
  from t p1 p2 p3
  have ii: "personalized_one ?r (template_text ?segs) = render (map_of (substitutions ?r)) ?segs"
    by blast
  from t p4 have iii: "personalized_one ?r ''50% {off'' = ''50% {off''"
    by blast
  from t o
  have iv: "join ''{{name}}'' (pieces ''{{name}}'' ''Hi {{name}}, {{name}}!'') = ''Hi {{name}}, {{name}}!''"
    by blast
  have v: "personalize ?r (template_text ?segs, ''50% {off'')
      = Inr (''p {margin: 0} Hi Ana, {{missing}}'', ''50% {off'')"
    by (simp only: i ii iii r1)
  from p1 p2 p3 p4 v o iv show ?thesis by blast
qed

text \<open>
  Claim C3 as stated fails. An empty name is not substituted (the placeholder of
  \<^verbatim>\<open>name\<close> stays); the replacements run one after the other on the text produced
  so far, so a metadata value that holds the placeholder of a later key is substituted
  again, and a value can close a placeholder that the template left open; and a key with
  braces matches text that is no placeholder of it. The code gives
  \<^verbatim>\<open>{{name}} c Z D\<close> where the claim gives a blank followed by
  \<^verbatim>\<open>{{b}} {{x}}{{x}} {{d}}\<close>.
\<close>

theorem personalization_counterexample:
  "personalize
     \<lparr>r_id = ''r1'', r_email = ''ana@example.com'', r_name = Some [],
      r_metadata = Some [(''a'', PStr ''{{b}}''), (''b'', PStr ''c''), (''x}}{{x'', PStr ''Z''),
                         (''e'', PStr ''}}''), (''d'', PStr ''D'')],
      r_campaign_id = Some ''c1'', r_status = ''pending''\<rparr>
     (template_text [Hole ''name'', Lit '' '', Hole ''a'', Lit '' '', Hole ''x'', Hole ''x'',
                     Lit '' {{d'', Hole ''e''],
      template_text [Hole ''name''])
   = Inr (''{{name}} c Z D'', ''{{name}}'')
   \<and> render (spec_binding
        \<lparr>r_id = ''r1'', r_email = ''ana@example.com'', r_name = Some [],
         r_metadata = Some [(''a'', PStr ''{{b}}''), (''b'', PStr ''c''), (''x}}{{x'', PStr ''Z''),
                            (''e'', PStr ''}}''), (''d'', PStr ''D'')],
         r_campaign_id = Some ''c1'', r_status = ''pending''\<rparr>)
          [Hole ''name'', Lit '' '', Hole ''a'', Lit '' '', Hole ''x'', Hole ''x'',
           Lit '' {{d'', Hole ''e'']
      = '' {{b}} {{x}}{{x}} {{d}}''
   \<and> render (spec_binding
        \<lparr>r_id = ''r1'', r_email = ''ana@example.com'', r_name = Some [],
         r_metadata = Some [(''a'', PStr ''{{b}}''), (''b'', PStr ''c''), (''x}}{{x'', PStr ''Z''),
                            (''e'', PStr ''}}''), (''d'', PStr ''D'')],
         r_campaign_id = Some ''c1'', r_status = ''pending''\<rparr>) [Hole ''name''] = []"
  by (simp add: personalize_def name_step_def metadata_items_def template_text_def
        placeholder_def py_replace_def render_def spec_binding_def replace_both_def str_replace_def)

text \<open>
  Claim C10, as amended. For a recipient whose name is \<^verbatim>\<open>None\<close> or empty,
  personalization never fails, whatever the metadata values are, and the name field
  substitutes nothing: a text in which no placeholder of a metadata key occurs comes back
  unchanged, with its placeholders of \<^verbatim>\<open>name\<close>; on a proper template, with no key
  that starts with the key of a placeholder of the template followed by a closing brace,
  and with values for the placeholders of the template that open no placeholder, every
  placeholder, the one of \<^verbatim>\<open>name\<close> included, becomes the metadata value of its
  key as a string, and stays as it is when the metadata has no such key. The string of a
  value is the one \<^verbatim>\<open>str\<close> gives.
\<close>

theorem empty_name_personalization:
  assumes "r_name r = None \<or> r_name r = Some []"
  shows "personalize r (c, s) = Inr (personalized_one r c, personalized_one r s)
    \<and> (list_all (\<lambda>(key, v). \<not> sublist (placeholder key) t) (metadata_items r) \<longrightarrow>
          personalized_one r t = t)
    \<and> (proper_template segs \<and> keys_fit segs (substitutions r) \<and> values_fit segs (substitutions r) \<longrightarrow>
          personalized_one r (template_text segs)
            = render (map_option py_str \<circ> map_of (metadata_items r)) segs)
    \<and> py_str (PStr t) = t
    \<and> py_str (PInt 42) = ''42'' \<and> py_str (PInt (- 7)) = ''-7''
    \<and> py_str (PBool True) = ''True'' \<and> py_str (PBool False) = ''False''
    \<and> py_str PNone = ''None''
    \<and> py_str (PFloat ''1.5'') = ''1.5''
    \<and> py_str (PList [PInt 1, PStr ''a'']) = ''[1, '' @ sq @ ''a'' @ sq @ '']''
    \<and> py_str (PDict [(''k'', PNone)]) = ''{'' @ sq @ ''k'' @ sq @ '': None}''"
proof -
  from assms have s: "substitutions r = map (\<lambda>(key, v). (key, py_str v)) (metadata_items r)"
    by (auto simp: substitutions_def)
  have b: "map_of (substitutions r) = map_option py_str \<circ> map_of (metadata_items r)"
    by (simp add: s map_of_py_str)
  have l: "list_all (\<lambda>(key, v). \<not> sublist (placeholder key) t) (substitutions r)
           = list_all (\<lambda>(key, v). \<not> sublist (placeholder key) t) (metadata_items r)"
    by (simp add: s list_all_iff split_beta)
  have d42: "digits 42 = ''42''" and d7: "digits 7 = ''7''" and d1: "digits (Suc 0) = ''1''"
    by code_simp+
  have pins: "py_str (PInt 42) = ''42''" "py_str (PInt (- 7)) = ''-7''"
    "py_str (PList [PInt 1, PStr ''a'']) = ''[1, '' @ sq @ ''a'' @ sq @ '']''"
    "py_str (PDict [(''k'', PNone)]) = ''{'' @ sq @ ''k'' @ sq @ '': None}''"
    by (simp_all add: int_text_def d42 d7 d1 repr_str_def escape_char_def sq_def Let_def)
  have absent: "personalized_one r t = t"
    if "list_all (\<lambda>(key, v). \<not> sublist (placeholder key) t) (metadata_items r)"
    using that l by (simp add: personalized_one_apply_subs apply_subs_absent)
  show ?thesis
    using pins b absent
    by (simp add: personalize_apply_subs personalized_one_apply_subs apply_subs_render)
qed

text \<open>
  Claim C10 as stated fails: with no name and no metadata key \<^verbatim>\<open>name\<close>, a metadata
  key with braces in it still matches the text of two placeholders of \<^verbatim>\<open>name\<close> in a
  row, which does not remain.
\<close>

theorem empty_name_counterexample:
  "r_name \<lparr>r_id = ''r1'', r_email = ''a@example.com'', r_name = None,
        r_metadata = Some [(''name}}{{name'', PStr ''X'')], r_campaign_id = Some ''c1'',
        r_status = ''pending''\<rparr> = None
   \<and> map_of (metadata_items \<lparr>r_id = ''r1'', r_email = ''a@example.com'', r_name = None,
        r_metadata = Some [(''name}}{{name'', PStr ''X'')], r_campaign_id = Some ''c1'',
        r_status = ''pending''\<rparr>) ''name'' = None
   \<and> personalize \<lparr>r_id = ''r1'', r_email = ''a@example.com'', r_name = None,
        r_metadata = Some [(''name}}{{name'', PStr ''X'')], r_campaign_id = Some ''c1'',
        r_status = ''pending''\<rparr> (''{{name}}{{name}}'', ''{{name}}{{name}}'') = Inr (''X'', ''X'')"
  by (simp add: personalize_def name_step_def metadata_items_def
        placeholder_def py_replace_def replace_both_def str_replace_def)

theorem empty_name_personalization_witness:
  "(r_name \<lparr>r_id = ''r1'', r_email = ''a@example.com'', r_name = None,
        r_metadata = Some [(''name'', PInt 7), (''vip'', PBool True), (''tags'', PList [PStr ''x''])],
        r_campaign_id = Some ''c1'', r_status = ''pending''\<rparr> = None
     \<or> r_name \<lparr>r_id = ''r1'', r_email = ''a@example.com'', r_name = None,
        r_metadata = Some [(''name'', PInt 7), (''vip'', PBool True), (''tags'', PList [PStr ''x''])],
        r_campaign_id = Some ''c1'', r_status = ''pending''\<rparr> = Some [])
   \<and> personalize
        \<lparr>r_id = ''r1'', r_email = ''a@example.com'', r_name = None,
         r_metadata = Some [(''name'', PInt 7), (''vip'', PBool True), (''tags'', PList [PStr ''x''])],
         r_campaign_id = Some ''c1'', r_status = ''pending''\<rparr>
        (template_text [Lit ''Hi '', Hole ''name'', Lit '' '', Hole ''vip'', Lit '' '', Hole ''tags''],
         template_text [Hole ''name''])
       = Inr (''Hi 7 True ['' @ sq @ ''x'' @ sq @ '']'', ''7'')
   \<and> (r_name \<lparr>r_id = ''r2'', r_email = ''b@example.com'', r_name = Some [],
        r_metadata = None, r_campaign_id = Some ''c1'', r_status = ''pending''\<rparr> = None
     \<or> r_name \<lparr>r_id = ''r2'', r_email = ''b@example.com'', r_name = Some [],
        r_metadata = None, r_campaign_id = Some ''c1'', r_status = ''pending''\<rparr> = Some [])
   \<and> personalize
        \<lparr>r_id = ''r2'', r_email = ''b@example.com'', r_name = Some [],
         r_metadata = None, r_campaign_id = Some ''c1'', r_status = ''pending''\<rparr>
        (template_text [Lit ''Hi '', Hole ''name''], template_text [Hole ''name''])
       = Inr (''Hi {{name}}'', ''{{name}}'')"
proof -
  let ?r1 = "\<lparr>r_id = ''r1'', r_email = ''a@example.com'', r_name = None,
         r_metadata = Some [(''name'', PInt 7), (''vip'', PBool True), (''tags'', PList [PStr ''x''])],
         r_campaign_id = Some ''c1'', r_status = ''pending''\<rparr>"
  let ?r2 = "\<lparr>r_id = ''r2'', r_email = ''b@example.com'', r_name = Some [],
         r_metadata = None, r_campaign_id = Some ''c1'', r_status = ''pending''\<rparr>"
  let ?c1 = "[Lit ''Hi '', Hole ''name'', Lit '' '', Hole ''vip'', Lit '' '', Hole ''tags'']"
  have h1: "r_name ?r1 = None \<or> r_name ?r1 = Some []" by simp
  have h2: "r_name ?r2 = None \<or> r_name ?r2 = Some []" by simp
  have d7: "digits 7 = ''7''" by code_simp
  have tags: "py_str (PList [PStr ''x'']) = ''['' @ sq @ ''x'' @ sq @ '']''"
    by (simp add: repr_str_def escape_char_def sq_def Let_def)
  have s1: "substitutions ?r1 = [(''name'', ''7''), (''vip'', ''True''), (''tags'', ''['' @ sq @ ''x'' @ sq @ '']'')]"
    by (simp add: substitutions_def metadata_items_def int_text_def d7 repr_str_def escape_char_def sq_def Let_def)
  have s2: "substitutions ?r2 = []"
    by (simp add: substitutions_def metadata_items_def)
  have p1: "proper_template ?c1" and p2: "proper_template [Hole ''name'']"
    and p3: "proper_template [Lit ''Hi '', Hole ''name'']"
    by (simp_all add: proper_template_def brace_free_def)
  have k1: "keys_fit segs (substitutions ?r1)" and k2: "keys_fit segs (substitutions ?r2)" for segs
    by (simp_all add: s1 s2 keys_fit_def)
  have v1: "values_fit ?c1 (substitutions ?r1)" and v2: "values_fit [Hole ''name''] (substitutions ?r1)"
    and v3: "values_fit [Lit ''Hi '', Hole ''name''] (substitutions ?r2)"
    and v4: "values_fit [Hole ''name''] (substitutions ?r2)"
    by (simp_all add: s1 s2 values_fit_def sq_def)
  have e1: "render (map_option py_str \<circ> map_of (metadata_items ?r1)) ?c1
              = ''Hi 7 True ['' @ sq @ ''x'' @ sq @ '']''"
    by (simp add: render_def metadata_items_def int_text_def d7 repr_str_def escape_char_def sq_def Let_def)
  have e2: "render (map_option py_str \<circ> map_of (metadata_items ?r1)) [Hole ''name''] = ''7''"
    by (simp add: render_def metadata_items_def int_text_def d7)
  have e3: "render (map_option py_str \<circ> map_of (metadata_items ?r2)) [Lit ''Hi '', Hole ''name'']
              = ''Hi {{name}}''"
    by (simp add: render_def metadata_items_def placeholder_def)
  have e4: "render (map_option py_str \<circ> map_of (metadata_items ?r2)) [Hole ''name''] = ''{{name}}''"
    by (simp add: render_def metadata_items_def placeholder_def)
  note t1 = empty_name_personalization[OF h1]
  note t2 = empty_name_personalization[OF h2]
  from t1[where segs = ?c1] p1 k1 v1 e1
  have a1: "personalized_one ?r1 (template_text ?c1) = ''Hi 7 True ['' @ sq @ ''x'' @ sq @ '']''"
    by simp
  from t1[where segs = "[Hole ''name'']"] p2 k1 v2 e2
  have a2: "personalized_one ?r1 (template_text [Hole ''name'']) = ''7''"
    by simp
  from t2[where segs = "[Lit ''Hi '', Hole ''name'']"] p3 k2 v3 e3
  have a3: "personalized_one ?r2 (template_text [Lit ''Hi '', Hole ''name'']) = ''Hi {{name}}''"
    by simp
  from t2[where segs = "[Hole ''name'']"] p2 k2 v4 e4
  have a4: "personalized_one ?r2 (template_text [Hole ''name'']) = ''{{name}}''"
    by simp
  from t1[where c = "template_text ?c1" and s = "template_text [Hole ''name'']"]
    t2[where c = "template_text [Lit ''Hi '', Hole ''name'']" and s = "template_text [Hole ''name'']"]
    a1 a2 a3 a4
  show ?thesis by simp
qed

section \<open>Runs without store errors: proofs\<close>

lemma send_single_email_eq:
  "send_single_email env r c w =
     (accepted (sg_send env (sg_calls w) (build_message env r c)),
      w\<lparr>sg_calls := Suc (sg_calls w), trace := trace w @ send_events env c (sg_calls w) r\<rparr>)"
  by (cases "sg_send env (sg_calls w) (build_message env r c)")
     (simp_all add: send_single_email_def personalize_personalized build_message_def Let_def
        emit_def send_events.simps)

lemma gather_eq:
  "gather env c rs w =
     (map Returned (send_results env c (sg_calls w) rs),
      w\<lparr>sg_calls := sg_calls w + length rs, trace := trace w @ gather_events env c (sg_calls w) rs\<rparr>)"
  by (induction rs arbitrary: w) (simp_all add: send_single_email_eq)

lemma length_send_results [simp]: "length (send_results env c n rs) = length rs"
  by (induction rs arbitrary: n) simp_all

lemma update_statuses_ok:
  "length batch = length bs \<Longrightarrow> store_up env \<Longrightarrow>
   update_statuses env (zip batch (map Returned bs)) s f w =
     (Inr (s + int (length (filter id bs)), f + int (length (filter Not bs))),
      w\<lparr>recipients := record_outcomes (zip batch bs) (recipients w),
        db_ops := db_ops w + length batch,
        trace := trace w @ map (\<lambda>(r, b). RecipientUpdate (r_id r) (status_of b)) (zip batch bs)\<rparr>)"
proof (induction batch bs arbitrary: s f w rule: list_induct2)
  case Nil
  then show ?case by simp
next
  case (Cons r batch b bs)
  then show ?case
    by (cases b) (simp_all add: recipients_update_one_def store_up_def status_of_def)
qed

lemma run_batch_ok:
  "store_up env \<Longrightarrow>
   run_batch env c batch s f w =
     (Inr (s + int (length (filter id (send_results env c (sg_calls w) batch))),
           f + int (length (filter Not (send_results env c (sg_calls w) batch)))),
      w\<lparr>recipients := record_outcomes (zip batch (send_results env c (sg_calls w) batch)) (recipients w),
        db_ops := db_ops w + length batch,
        sg_calls := sg_calls w + length batch,
        trace := trace w @ batch_events env c (sg_calls w) batch\<rparr>)"
  by (simp add: run_batch_def gather_eq emit_def update_statuses_ok batch_events_def)

lemma send_results_append:
  "send_results env c n (xs @ ys) = send_results env c n xs @ send_results env c (n + length xs) ys"
  by (induction xs arbitrary: n) simp_all

lemma gather_events_append:
  "gather_events env c n (xs @ ys) = gather_events env c n xs @ gather_events env c (n + length xs) ys"
  by (induction xs arbitrary: n) simp_all

lemma record_outcomes_append:
  "record_outcomes (ps @ qs) docs = record_outcomes qs (record_outcomes ps docs)"
  by (induction ps docs rule: record_outcomes.induct) simp_all

lemma drop_batch_split:
  "drop i rs = take batch_size (drop i rs) @ drop (i + batch_size) rs"
  by (metis add.commute append_take_drop_id drop_drop)

lemma process_batches_ok:
  assumes up: "store_up env"
  shows "process_batches env c rs i s f w =
     (Inr (s + int (length (filter id (send_results env c (sg_calls w) (drop i rs)))),
           f + int (length (filter Not (send_results env c (sg_calls w) (drop i rs))))),
      w\<lparr>recipients := record_outcomes (zip (drop i rs) (send_results env c (sg_calls w) (drop i rs))) (recipients w),
        db_ops := db_ops w + (length rs - i),
        sg_calls := sg_calls w + (length rs - i),
        trace := trace w @ loop_events env c (sg_calls w) rs i\<rparr>)"
proof (induction "length rs - i" arbitrary: i s f w rule: less_induct)
  case less
  show ?case
  proof (cases "i < length rs")
    case False
    then show ?thesis
      by (simp add: process_batches.simps[of env c rs i] loop_events.simps[of env c _ rs i])
  next
    case True
    define batch where "batch = take batch_size (drop i rs)"
    define rest where "rest = drop (i + batch_size) rs"
    define n where "n = sg_calls w"
    define oks where "oks = send_results env c n batch"
    define w1 where "w1 = w\<lparr>recipients := record_outcomes (zip batch oks) (recipients w),
        db_ops := db_ops w + length batch,
        sg_calls := n + length batch,
        trace := trace w @ batch_events env c n batch\<rparr>"
    define w2 where "w2 = (if i + batch_size < length rs then emit (Sleep 1) w1 else w1)"
    have split: "drop i rs = batch @ rest"
      unfolding batch_def rest_def by (rule drop_batch_split)
    have len: "length rs - i = length batch + (length rs - (i + batch_size))"
      using True by (simp add: batch_def batch_size_def)
    have rb: "run_batch env c batch s f w =
        (Inr (s + int (length (filter id oks)), f + int (length (filter Not oks))), w1)"
      by (simp add: run_batch_ok[OF up] w1_def oks_def n_def)
    have dec: "length rs - (i + batch_size) < length rs - i"
      using True by (simp add: batch_size_def)
    have w2_calls: "sg_calls w2 = n + length batch" and w2_ops: "db_ops w2 = db_ops w + length batch"
      and w2_rec: "recipients w2 = record_outcomes (zip batch oks) (recipients w)"
      and w2_cam: "campaigns w2 = campaigns w"
      and w2_tr: "trace w2 = trace w @ batch_events env c n batch
                    @ (if i + batch_size < length rs then [Sleep 1] else [])"
      by (simp_all add: w2_def w1_def emit_def)
    have step: "process_batches env c rs i s f w =
        process_batches env c rs (i + batch_size)
          (s + int (length (filter id oks))) (f + int (length (filter Not oks))) w2"
      using True rb by (simp add: process_batches.simps[of env c rs i] batch_def w2_def)
    have res: "send_results env c n (drop i rs) = oks @ send_results env c (n + length batch) rest"
      by (simp add: split send_results_append oks_def)
    have zipsplit: "zip (drop i rs) (send_results env c n (drop i rs))
        = zip batch oks @ zip rest (send_results env c (n + length batch) rest)"
      by (simp add: split send_results_append oks_def)
    have ev: "loop_events env c n rs i = batch_events env c n batch
          @ (if i + batch_size < length rs then [Sleep 1] else [])
          @ loop_events env c (n + length batch) rs (i + batch_size)"
      using True by (simp add: loop_events.simps[of env c n rs i] batch_def)
    have eqw: "w2\<lparr>recipients := record_outcomes (zip rest (send_results env c (sg_calls w2) rest)) (recipients w2),
          db_ops := db_ops w2 + (length rs - (i + batch_size)),
          sg_calls := sg_calls w2 + (length rs - (i + batch_size)),
          trace := trace w2 @ loop_events env c (sg_calls w2) rs (i + batch_size)\<rparr>
        = w\<lparr>recipients := record_outcomes (zip (drop i rs) (send_results env c n (drop i rs))) (recipients w),
          db_ops := db_ops w + (length rs - i),
          sg_calls := n + (length rs - i),
          trace := trace w @ loop_events env c n rs i\<rparr>"
      unfolding zipsplit record_outcomes_append ev w2_calls w2_ops w2_rec w2_tr len
      by (simp add: w2_def w1_def emit_def)
    show ?thesis
      unfolding step less.hyps[OF dec] eqw[unfolded rest_def]
      using res by (simp add: w2_calls rest_def n_def)
  qed
qed

lemma start_simps [simp]:
  "campaigns (start cs rs) = cs" "recipients (start cs rs) = rs" "db_ops (start cs rs) = 0"
  "sg_calls (start cs rs) = 0" "trace (start cs rs) = []"
  by (simp_all add: start_def)

lemma read_recipients_valid:
  "list_all (\<lambda>r. validate_recipient env r = Inr r) rs \<Longrightarrow> read_recipients env rs = Inr rs"
  by (induction rs) simp_all

lemma run_body_ok:
  assumes up: "store_up env" and found: "find (\<lambda>c. c_id c = cid) cs = Some c"
    and valid: "documents_valid env cid cs rs"
  shows "run_body env cid tm (start cs rs) =
     (Inr (),
      \<lparr>campaigns = update_first (\<lambda>c. c_id c = cid) (apply_sets (final_set env c (selected cid tm rs)))
                     (update_first (\<lambda>c. c_id c = cid) (apply_sets (sending_set env)) cs),
       recipients = record_outcomes
                      (zip (selected cid tm rs) (send_results env c 0 (selected cid tm rs))) rs,
       db_ops = 4 + length (selected cid tm rs),
       sg_calls = length (selected cid tm rs),
       trace = CampaignUpdate cid (sending_set env)
               # loop_events env c 0 (selected cid tm rs) 0
               @ [CampaignUpdate cid (final_set env c (selected cid tm rs)),
                  Log (CampaignCompleted cid
                        (int (length (filter id (send_results env c 0 (selected cid tm rs)))))
                        (int (length (filter Not (send_results env c 0 (selected cid tm rs))))))]\<rparr>)"
proof -
  from valid found have vc: "validate_campaign env c = Inr c"
    and vr: "read_recipients env (pending cid rs) = Inr (pending cid rs)"
    by (simp_all add: documents_valid_def read_recipients_valid)
  from vr have vr': "read_recipients env
      (filter (\<lambda>r. r_campaign_id r = Some cid \<and> r_status r = ''pending'') rs)
      = Inr (filter (\<lambda>r. r_campaign_id r = Some cid \<and> r_status r = ''pending'') rs)"
    by (simp add: pending_def)
  show ?thesis
    using up found vc vr'
    by (simp add: run_body_def campaigns_find_one_def campaigns_update_one_def
        recipients_find_pending_def process_batches_ok[OF up] store_up_def start_def emit_def
        selected_def pending_def sending_set_def final_set_def eval_nat_numeral)
qed

lemma process_bulk_ok:
  assumes up: "store_up env" and found: "find (\<lambda>c. c_id c = cid) cs = Some c"
    and valid: "documents_valid env cid cs rs"
  shows "process_bulk_email_campaign env cid tm (start cs rs) =
     (Returns, snd (run_body env cid tm (start cs rs)))"
  by (simp add: process_bulk_email_campaign_def run_body_ok[OF up found valid])

lemma gathered_append: "gathered (xs @ ys) = gathered xs @ gathered ys"
  by (induction xs rule: gathered.induct) simp_all

lemma sent_mails_append: "sent_mails (xs @ ys) = sent_mails xs @ sent_mails ys"
  by (induction xs rule: sent_mails.induct) simp_all

lemma recipient_writes_append: "recipient_writes (xs @ ys) = recipient_writes xs @ recipient_writes ys"
  by (induction xs rule: recipient_writes.induct) simp_all

lemma campaign_writes_append: "campaign_writes (xs @ ys) = campaign_writes xs @ campaign_writes ys"
  by (induction xs rule: campaign_writes.induct) simp_all

lemma send_events_proj:
  "gathered (send_events env c n r) = []"
  "sent_mails (send_events env c n r) = [build_message env r c]"
  "recipient_writes (send_events env c n r) = []"
  "campaign_writes (send_events env c n r) = []"
  by (simp_all add: send_events.simps split: sg_outcome.split)

lemma gather_events_proj:
  "gathered (gather_events env c n rs) = []"
  "sent_mails (gather_events env c n rs) = map (\<lambda>r. build_message env r c) rs"
  "recipient_writes (gather_events env c n rs) = []"
  "campaign_writes (gather_events env c n rs) = []"
  by (induction rs arbitrary: n)
     (simp_all add: send_events_proj gathered_append sent_mails_append recipient_writes_append
        campaign_writes_append)

lemma updates_proj:
  "gathered (map (\<lambda>(r, b). RecipientUpdate (r_id r) (status_of b)) ps) = []"
  "sent_mails (map (\<lambda>(r, b). RecipientUpdate (r_id r) (status_of b)) ps) = []"
  "recipient_writes (map (\<lambda>(r, b). RecipientUpdate (r_id r) (status_of b)) ps)
     = map (\<lambda>(r, b). (r_id r, status_of b)) ps"
  "campaign_writes (map (\<lambda>(r, b). RecipientUpdate (r_id r) (status_of b)) ps) = []"
  by (induction ps) auto

lemma batch_events_proj:
  "gathered (batch_events env c n batch) = [batch]"
  "sent_mails (batch_events env c n batch) = map (\<lambda>r. build_message env r c) batch"
  "recipient_writes (batch_events env c n batch)
     = map (\<lambda>(r, b). (r_id r, status_of b)) (zip batch (send_results env c n batch))"
  "campaign_writes (batch_events env c n batch) = []"
  by (simp_all add: batch_events_def gather_events_proj updates_proj gathered_append
        sent_mails_append recipient_writes_append campaign_writes_append)

lemma loop_events_proj:
  "gathered (loop_events env c n rs i) = batches_from i rs
   \<and> sent_mails (loop_events env c n rs i) = map (\<lambda>r. build_message env r c) (drop i rs)
   \<and> recipient_writes (loop_events env c n rs i)
       = map (\<lambda>(r, b). (r_id r, status_of b)) (zip (drop i rs) (send_results env c n (drop i rs)))
   \<and> campaign_writes (loop_events env c n rs i) = []"
proof (induction "length rs - i" arbitrary: i n rule: less_induct)
  case less
  show ?case
  proof (cases "i < length rs")
    case False
    then show ?thesis
      by (simp add: loop_events.simps[of env c n rs i] batches_from.simps[of i rs])
  next
    case True
    define batch where "batch = take batch_size (drop i rs)"
    have dec: "length rs - (i + batch_size) < length rs - i"
      using True by (simp add: batch_size_def)
    note ih = less.hyps[OF dec, of "n + length batch"]
    have split: "drop i rs = batch @ drop (i + batch_size) rs"
      unfolding batch_def by (rule drop_batch_split)
    have ev: "loop_events env c n rs i = batch_events env c n batch
          @ (if i + batch_size < length rs then [Sleep 1] else [])
          @ loop_events env c (n + length batch) rs (i + batch_size)"
      using True by (simp add: loop_events.simps[of env c n rs i] batch_def)
    have bf: "batches_from i rs = batch # batches_from (i + batch_size) rs"
      using True by (simp add: batches_from.simps[of i rs] batch_def)
    have zs: "zip (drop i rs) (send_results env c n (drop i rs))
        = zip batch (send_results env c n batch)
          @ zip (drop (i + batch_size) rs) (send_results env c (n + length batch) (drop (i + batch_size) rs))"
      by (subst split, subst split) (simp add: send_results_append)
    have ms: "map (\<lambda>r. build_message env r c) (drop i rs)
        = map (\<lambda>r. build_message env r c) batch @ map (\<lambda>r. build_message env r c) (drop (i + batch_size) rs)"
      by (subst split) simp
    show ?thesis
      unfolding ev bf zs ms
      using ih
      by (simp add: gathered_append sent_mails_append recipient_writes_append
            campaign_writes_append batch_events_proj)
  qed
qed

lemma batches_from_nth:
  "k < length (batches_from i rs) \<Longrightarrow> batches_from i rs ! k = take batch_size (drop (i + batch_size * k) rs)"
proof (induction "length rs - i" arbitrary: i k rule: less_induct)
  case less
  from less.prems have lt: "i < length rs"
    by (cases "i < length rs") (simp_all add: batches_from.simps[of i rs])
  then have bf: "batches_from i rs = take batch_size (drop i rs) # batches_from (i + batch_size) rs"
    by (simp add: batches_from.simps[of i rs])
  have dec: "length rs - (i + batch_size) < length rs - i"
    using lt by (simp add: batch_size_def)
  show ?case
  proof (cases k)
    case 0
    then show ?thesis by (simp add: bf)
  next
    case (Suc k')
    then have "k' < length (batches_from (i + batch_size) rs)"
      using less.prems by (simp add: bf)
    from less.hyps[OF dec this] Suc show ?thesis
      by (simp add: bf add.assoc)
  qed
qed

lemma ceil_step: "0 < m \<Longrightarrow> Suc ((m - 10 + 9) div 10) = (m + 9) div (10::nat)"
proof (cases "10 \<le> m")
  case True
  then have "m + 9 = (m - 10 + 9) + 10" by simp
  then have "(m + 9) div 10 = ((m - 10 + 9) + 10) div 10" by simp
  also have "\<dots> = Suc ((m - 10 + 9) div 10)" by (simp only: div_add_self2)
  finally show ?thesis by simp
next
  case False
  assume pos: "0 < m"
  from False pos have e: "m + 9 = (m - 1) + 10" and l: "m - 1 < 10" by simp_all
  have "(m + 9) div 10 = Suc ((m - 1) div 10)"
    unfolding e by (simp only: div_add_self2)
  also have "\<dots> = 1" using l by simp
  finally have "(m + 9) div 10 = 1" .
  moreover from False have "m - 10 = 0" by simp
  ultimately show ?thesis by simp
qed

lemma length_batches_from:
  "length (batches_from i rs) = (length rs - i + 9) div 10"
proof (induction "length rs - i" arbitrary: i rule: less_induct)
  case less
  show ?case
  proof (cases "i < length rs")
    case False
    then show ?thesis by (simp add: batches_from.simps[of i rs])
  next
    case True
    have dec: "length rs - (i + batch_size) < length rs - i"
      using True by (simp add: batch_size_def)
    have a: "length rs - (i + batch_size) = length rs - i - 10"
      by (simp add: batch_size_def)
    have "length (batches_from i rs) = Suc ((length rs - i - 10 + 9) div 10)"
      using True by (simp add: batches_from.simps[of i rs] less.hyps[OF dec] a)
    also have "\<dots> = (length rs - i + 9) div 10"
      using True by (intro ceil_step) simp
    finally show ?thesis .
  qed
qed

lemma concat_batches_from: "concat (batches_from i rs) = drop i rs"
proof (induction "length rs - i" arbitrary: i rule: less_induct)
  case less
  show ?case
  proof (cases "i < length rs")
    case False
    then show ?thesis by (simp add: batches_from.simps[of i rs])
  next
    case True
    have dec: "length rs - (i + batch_size) < length rs - i"
      using True by (simp add: batch_size_def)
    from less.hyps[OF dec] True show ?thesis
      using drop_batch_split[of i rs] by (simp add: batches_from.simps[of i rs])
  qed
qed

lemma update_first_distinct:
  "distinct (map r_id docs) \<Longrightarrow>
   update_first (\<lambda>d. r_id d = i) f docs = map (\<lambda>d. if r_id d = i then f d else d) docs"
proof (induction docs)
  case Nil
  then show ?case by simp
next
  case (Cons d docs)
  show ?case
  proof (cases "r_id d = i")
    case True
    with Cons.prems have "\<forall>x \<in> set docs. r_id x \<noteq> i" by (fastforce simp: image_iff)
    then have "map (\<lambda>d. if r_id d = i then f d else d) docs = docs"
      by (induction docs) auto
    with True show ?thesis by simp
  next
    case False
    with Cons show ?thesis by simp
  qed
qed

lemma update_first_ids:
  "map r_id (update_first p (\<lambda>d. d\<lparr>r_status := s\<rparr>) docs) = map r_id docs"
  by (induction docs) auto

lemma record_outcomes_ids: "map r_id (record_outcomes ps docs) = map r_id docs"
  by (induction ps docs rule: record_outcomes.induct) (simp_all add: update_first_ids)

lemma record_outcomes_mark:
  "distinct (map r_id docs) \<Longrightarrow> record_outcomes ps docs = map (mark ps) docs"
proof (induction ps docs rule: record_outcomes.induct)
  case (1 docs)
  then show ?case by simp
next
  case (2 r b rest docs)
  let ?docs' = "update_first (\<lambda>d. r_id d = r_id r) (\<lambda>d. d\<lparr>r_status := status_of b\<rparr>) docs"
  have "distinct (map r_id ?docs')" using "2.prems" by (simp add: update_first_ids)
  then have "record_outcomes rest ?docs' = map (mark rest) ?docs'" by (rule "2.IH")
  then show ?case
    by (simp add: update_first_distinct[OF "2.prems"] comp_def)
qed

lemma mark_id [simp]: "r_id (mark ps d) = r_id d"
  by (induction ps d rule: mark.induct) auto

lemma mark_other: "r_id d \<notin> (\<lambda>p. r_id (fst p)) ` set ps \<Longrightarrow> mark ps d = d"
  by (induction ps d rule: mark.induct) auto

lemma mark_hit:
  "distinct (map (\<lambda>p. r_id (fst p)) ps) \<Longrightarrow> (r, b) \<in> set ps \<Longrightarrow> r_id d = r_id r \<Longrightarrow>
   mark ps d = d\<lparr>r_status := status_of b\<rparr>"
proof (induction ps d rule: mark.induct)
  case (1 d)
  then show ?case by simp
next
  case (2 r' b' ps d)
  show ?case
  proof (cases "(r, b) = (r', b')")
    case True
    with "2.prems" have "r_id (d\<lparr>r_status := status_of b\<rparr>) \<notin> (\<lambda>p. r_id (fst p)) ` set ps"
      by auto
    from mark_other[OF this] True "2.prems"(3) show ?thesis by simp
  next
    case False
    with "2.prems" have in_ps: "(r, b) \<in> set ps" by auto
    then have "r_id r \<in> (\<lambda>p. r_id (fst p)) ` set ps" by force
    with "2.prems" have ne: "r_id d \<noteq> r_id r'" by (fastforce simp: image_iff)
    from "2.prems" have "distinct (map (\<lambda>p. r_id (fst p)) ps)" by simp
    from "2.IH"[OF this in_ps] ne "2.prems"(3) show ?thesis by simp
  qed
qed

lemma distinct_selected:
  "distinct (map r_id rs) \<Longrightarrow> distinct (map r_id (selected cid tm rs))"
  by (simp add: selected_def limit_test_mode_def pending_def distinct_map_filter
        take_map[symmetric] del: take_map)

lemma selected_subset: "set (selected cid tm rs) \<subseteq> set rs"
  by (auto simp: selected_def limit_test_mode_def pending_def dest: in_set_takeD)

lemma find_id_distinct:
  "distinct (map r_id docs) \<Longrightarrow> r \<in> set docs \<Longrightarrow> find (\<lambda>d. r_id d = r_id r) docs = Some r"
  by (induction docs) (auto simp: rev_image_eqI)

lemma find_map_id:
  "(\<And>d. r_id (g d) = r_id d) \<Longrightarrow>
   find (\<lambda>d. r_id d = i) (map g docs) = map_option g (find (\<lambda>d. r_id d = i) docs)"
  by (induction docs) auto

lemma send_results_nth:
  "j < length rs \<Longrightarrow>
   send_results env c n rs ! j = accepted (sg_send env (n + j) (build_message env (rs ! j) c))"
proof (induction rs arbitrary: n j)
  case Nil
  then show ?case by simp
next
  case (Cons r rs)
  then show ?case by (cases j) simp_all
qed

lemma filter_id_Not: "length (filter id bs) + length (filter Not bs) = length (bs :: bool list)"
  by (induction bs) auto

lemma c_id_apply_sets [simp]: "c_id (apply_sets fs c) = c_id c"
proof -
  have "c_id (fold set_field fs c) = c_id c"
  proof (induction fs arbitrary: c)
    case Nil
    then show ?case by simp
  next
    case (Cons f fs)
    then show ?case by (cases f) simp_all
  qed
  then show ?thesis by (simp add: apply_sets_def)
qed

lemma find_update_first:
  "find (\<lambda>c. c_id c = cid) (update_first (\<lambda>c. c_id c = cid) (apply_sets fs) cs)
     = map_option (apply_sets fs) (find (\<lambda>c. c_id c = cid) cs)"
  by (induction cs) auto

lemma run_ok:
  assumes up: "store_up env" and found: "find (\<lambda>c. c_id c = cid) cs = Some c"
    and valid: "documents_valid env cid cs rs"
  shows "run_completion env cid tm cs rs = Returns"
    and "campaigns (run_world env cid tm cs rs) =
           update_first (\<lambda>c. c_id c = cid) (apply_sets (final_set env c (selected cid tm rs)))
             (update_first (\<lambda>c. c_id c = cid) (apply_sets (sending_set env)) cs)"
    and "recipients (run_world env cid tm cs rs) =
           record_outcomes (zip (selected cid tm rs) (send_results env c 0 (selected cid tm rs))) rs"
    and "trace (run_world env cid tm cs rs) =
           CampaignUpdate cid (sending_set env)
           # loop_events env c 0 (selected cid tm rs) 0
           @ [CampaignUpdate cid (final_set env c (selected cid tm rs)),
              Log (CampaignCompleted cid
                    (int (length (filter id (send_results env c 0 (selected cid tm rs)))))
                    (int (length (filter Not (send_results env c 0 (selected cid tm rs))))))]"
  by (simp_all add: run_completion_def run_world_def process_bulk_ok[OF up found valid]
        run_body_ok[OF up found valid])

lemma run_campaign:
  assumes up: "store_up env" and found: "find (\<lambda>c. c_id c = cid) cs = Some c"
    and valid: "documents_valid env cid cs rs"
  shows "find (\<lambda>c. c_id c = cid) (campaigns (run_world env cid tm cs rs)) =
     Some (c\<lparr>c_status := (if int (length (filter Not (send_results env c 0 (selected cid tm rs)))) = 0
                           then ''completed'' else ''completed_with_errors''),
             c_sent_count := int (length (filter id (send_results env c 0 (selected cid tm rs)))),
             c_failed_count := int (length (filter Not (send_results env c 0 (selected cid tm rs)))),
             c_updated_at := now env (3 + length (selected cid tm rs))\<rparr>)"
  by (simp add: run_ok(2)[OF up found valid] find_update_first found apply_sets_def final_set_def
        sending_set_def)

lemma run_recipients_mark:
  assumes up: "store_up env" and found: "find (\<lambda>c. c_id c = cid) cs = Some c"
    and valid: "documents_valid env cid cs rs" and dist: "distinct (map r_id rs)"
  shows "recipients (run_world env cid tm cs rs) =
     map (mark (zip (selected cid tm rs) (send_results env c 0 (selected cid tm rs)))) rs"
  by (simp add: run_ok(3)[OF up found valid] record_outcomes_mark[OF dist])

lemma zip_ids_distinct:
  "distinct (map r_id sel) \<Longrightarrow> length bs = length sel \<Longrightarrow>
   distinct (map (\<lambda>p. r_id (fst p)) (zip sel bs))"
proof -
  assume d: "distinct (map r_id sel)" and l: "length bs = length sel"
  have "map (\<lambda>p. r_id (fst p)) (zip sel bs) = map r_id (map fst (zip sel bs))" by simp
  also have "\<dots> = map r_id sel" using l by simp
  finally show ?thesis using d by simp
qed

lemma status_of_cases: "status_of b = ''sent'' \<or> status_of b = ''failed''"
  by (simp add: status_of_def)

text \<open>
  Claim C1. A run that meets no store error and reads documents that fit their models,
  on a store whose recipient ids are distinct, returns; the persisted \<open>sent_count\<close> plus \<open>failed_count\<close> of the campaign is the number
  of selected recipients; no document is added or removed, and every document of a
  selected recipient ends with status \<^verbatim>\<open>sent\<close> or \<^verbatim>\<open>failed\<close>.
\<close>

theorem counter_invariant:
  assumes "store_up env" and "find (\<lambda>c. c_id c = cid) cs = Some c"
    and "documents_valid env cid cs rs" and "distinct (map r_id rs)"
  shows "run_completion env cid test_mode cs rs = Returns
    \<and> (\<exists>c'. find (\<lambda>c. c_id c = cid) (campaigns (run_world env cid test_mode cs rs)) = Some c'
            \<and> c_sent_count c' + c_failed_count c' = int (length (selected cid test_mode rs)))
    \<and> map r_id (recipients (run_world env cid test_mode cs rs)) = map r_id rs
    \<and> (\<forall>d \<in> set (recipients (run_world env cid test_mode cs rs)).
          r_id d \<in> r_id ` set (selected cid test_mode rs) \<longrightarrow>
          r_status d = ''sent'' \<or> r_status d = ''failed'')"
proof -
  let ?sel = "selected cid test_mode rs"
  let ?oks = "send_results env c 0 ?sel"
  let ?ps = "zip ?sel ?oks"
  note up = assms(1) and found = assms(2) and valid = assms(3) and dist = assms(4)
  have a: "run_completion env cid test_mode cs rs = Returns"
    by (rule run_ok(1)[OF up found valid])
  have "int (length (filter id ?oks)) + int (length (filter Not ?oks)) = int (length ?sel)"
    using filter_id_Not[of ?oks] by simp
  then have b: "\<exists>c'. find (\<lambda>c. c_id c = cid) (campaigns (run_world env cid test_mode cs rs)) = Some c'
            \<and> c_sent_count c' + c_failed_count c' = int (length ?sel)"
    by (simp add: run_campaign[OF up found valid])
  have c: "map r_id (recipients (run_world env cid test_mode cs rs)) = map r_id rs"
    by (simp add: run_ok(3)[OF up found valid] record_outcomes_ids)
  have dps: "distinct (map (\<lambda>p. r_id (fst p)) ?ps)"
    by (rule zip_ids_distinct[OF distinct_selected[OF dist]]) simp
  have d: "r_status d = ''sent'' \<or> r_status d = ''failed''"
    if din: "d \<in> set (recipients (run_world env cid test_mode cs rs))"
      and sel: "r_id d \<in> r_id ` set ?sel" for d
  proof -
    from din obtain d0 where d0: "d0 \<in> set rs" and dm: "d = mark ?ps d0"
      unfolding run_recipients_mark[OF up found valid dist] by auto
    from sel dm obtain r where r: "r \<in> set ?sel" and rid: "r_id d0 = r_id r" by auto
    from r obtain j where j: "j < length ?sel" and rj: "r = ?sel ! j"
      by (auto simp: in_set_conv_nth)
    have "(r, ?oks ! j) \<in> set ?ps"
      using j rj by (auto simp: set_zip)
    from mark_hit[OF dps this rid] dm show ?thesis
      using status_of_cases[of "?oks ! j"] by simp
  qed
  from a b c d show ?thesis by blast
qed

text \<open>
  Claim C2. A run that meets no store error and reads documents that fit their models
  gathers exactly \<open>ceil(N/10)\<close> batches; the
  k-th batch is the slice of ten selected recipients from index \<open>10 k\<close>, so all batches but
  the last have ten members, none is empty, and together they are the selected list in
  its order; the provider is called once for each selected recipient, in that order.
\<close>

theorem batch_partition:
  assumes "store_up env" and "find (\<lambda>c. c_id c = cid) cs = Some c"
    and "documents_valid env cid cs rs"
  shows "length (gathered (trace (run_world env cid test_mode cs rs)))
           = (length (selected cid test_mode rs) + 9) div 10
    \<and> concat (gathered (trace (run_world env cid test_mode cs rs))) = selected cid test_mode rs
    \<and> (\<forall>k < length (gathered (trace (run_world env cid test_mode cs rs))).
          gathered (trace (run_world env cid test_mode cs rs)) ! k
            = take 10 (drop (10 * k) (selected cid test_mode rs)))
    \<and> (\<forall>k. Suc k < length (gathered (trace (run_world env cid test_mode cs rs))) \<longrightarrow>
          length (gathered (trace (run_world env cid test_mode cs rs)) ! k) = 10)
    \<and> (\<forall>b \<in> set (gathered (trace (run_world env cid test_mode cs rs))).
          0 < length b \<and> length b \<le> 10)
    \<and> sent_mails (trace (run_world env cid test_mode cs rs))
         = map (\<lambda>r. build_message env r c) (selected cid test_mode rs)"
proof -
  let ?sel = "selected cid test_mode rs"
  let ?g = "gathered (trace (run_world env cid test_mode cs rs))"
  have g: "?g = batches_from 0 ?sel"
    by (simp add: run_ok(4)[OF assms] gathered_append loop_events_proj)
  have len: "length ?g = (length ?sel + 9) div 10"
    by (simp add: g length_batches_from)
  have cat: "concat ?g = ?sel"
    by (simp add: g concat_batches_from)
  have nth: "?g ! k = take 10 (drop (10 * k) ?sel)" if "k < length ?g" for k
    using that batches_from_nth[of k 0 ?sel] by (simp add: g batch_size_def)
  have full: "length (?g ! k) = 10" if k: "Suc k < length ?g" for k
  proof -
    from k have "Suc (Suc k) \<le> (length ?sel + 9) div 10" by (simp add: len)
    then have "Suc (Suc k) * 10 \<le> length ?sel + 9" by (simp only: less_eq_div_iff_mult_less_eq)
    then have "10 * k + 10 \<le> length ?sel" by simp
    moreover from k have "k < length ?g" by simp
    ultimately show ?thesis by (simp add: nth)
  qed
  have size: "0 < length b \<and> length b \<le> 10" if b: "b \<in> set ?g" for b
  proof -
    from b obtain k where k: "k < length ?g" and bk: "b = ?g ! k"
      by (auto simp: in_set_conv_nth)
    from k have "Suc k \<le> (length ?sel + 9) div 10" by (simp add: len)
    then have "Suc k * 10 \<le> length ?sel + 9" by (simp only: less_eq_div_iff_mult_less_eq)
    then have "10 * k < length ?sel" by simp
    then show ?thesis by (simp add: bk nth[OF k])
  qed
  have mails: "sent_mails (trace (run_world env cid test_mode cs rs))
         = map (\<lambda>r. build_message env r c) ?sel"
    by (simp add: run_ok(4)[OF assms] sent_mails_append loop_events_proj)
  from len cat nth full size mails show ?thesis by blast
qed

text \<open>
  Claim C4. A run that meets no store error and reads documents that fit their models
  writes the campaign twice: \<^verbatim>\<open>sending\<close>,
  then one write with the final status, both counters and the timestamp. The final status
  is \<^verbatim>\<open>completed\<close> exactly when the failed count is zero. With no selected recipient
  both counters are zero, the status is \<^verbatim>\<open>completed\<close> and the provider is not called.
\<close>

theorem terminal_write:
  assumes "store_up env" and "find (\<lambda>c. c_id c = cid) cs = Some c"
    and "documents_valid env cid cs rs"
  shows "campaign_writes (trace (run_world env cid test_mode cs rs)) =
       [(cid, [SetStatus ''sending'', SetUpdatedAt (now env 1)]),
        (cid, [SetStatus (if int (length (filter Not (send_results env c 0 (selected cid test_mode rs)))) = 0
                          then ''completed'' else ''completed_with_errors''),
               SetSentCount (int (length (filter id (send_results env c 0 (selected cid test_mode rs))))),
               SetFailedCount (int (length (filter Not (send_results env c 0 (selected cid test_mode rs))))),
               SetUpdatedAt (now env (3 + length (selected cid test_mode rs)))])]
    \<and> (\<exists>c'. find (\<lambda>c. c_id c = cid) (campaigns (run_world env cid test_mode cs rs)) = Some c'
          \<and> c_status c' = (if c_failed_count c' = 0 then ''completed'' else ''completed_with_errors'')
          \<and> c_sent_count c' = int (length (filter id (send_results env c 0 (selected cid test_mode rs))))
          \<and> c_failed_count c' = int (length (filter Not (send_results env c 0 (selected cid test_mode rs))))
          \<and> c_updated_at c' = now env (3 + length (selected cid test_mode rs)))
    \<and> (selected cid test_mode rs = [] \<longrightarrow>
         (\<exists>c'. find (\<lambda>c. c_id c = cid) (campaigns (run_world env cid test_mode cs rs)) = Some c'
            \<and> c_sent_count c' = 0 \<and> c_failed_count c' = 0 \<and> c_status c' = ''completed'')
         \<and> sent_mails (trace (run_world env cid test_mode cs rs)) = [])"
proof -
  have w: "campaign_writes (trace (run_world env cid test_mode cs rs)) =
       [(cid, sending_set env), (cid, final_set env c (selected cid test_mode rs))]"
    by (simp add: run_ok(4)[OF assms] campaign_writes_append loop_events_proj)
  have m: "sent_mails (trace (run_world env cid test_mode cs rs))
         = map (\<lambda>r. build_message env r c) (selected cid test_mode rs)"
    by (simp add: run_ok(4)[OF assms] sent_mails_append loop_events_proj)
  show ?thesis
    unfolding w m run_campaign[OF assms]
    by (simp add: sending_set_def final_set_def)
qed

text \<open>
  Claim C5. In a run that meets no store error and reads documents that fit their models,
  the document of the j-th selected
  recipient ends with a status that depends on its own provider call alone:
  \<^verbatim>\<open>sent\<close> for status code 202, \<^verbatim>\<open>failed\<close> for any other code and for a call
  that raises. The run returns, the failed count is the number of such calls, and the
  campaign does not end as \<^verbatim>\<open>failed\<close>.
\<close>

theorem failure_isolation:
  assumes "store_up env" and "find (\<lambda>c. c_id c = cid) cs = Some c"
    and "documents_valid env cid cs rs" and "distinct (map r_id rs)"
    and "j < length (selected cid test_mode rs)"
  shows "run_completion env cid test_mode cs rs = Returns
    \<and> find (\<lambda>d. r_id d = r_id (selected cid test_mode rs ! j))
         (recipients (run_world env cid test_mode cs rs))
       = Some ((selected cid test_mode rs ! j)
           \<lparr>r_status :=
              (case sg_send env j (build_message env (selected cid test_mode rs ! j) c) of
                 Response status_code \<Rightarrow> if status_code = 202 then ''sent'' else ''failed''
               | SendError \<Rightarrow> ''failed'')\<rparr>)
    \<and> (\<exists>c'. find (\<lambda>c. c_id c = cid) (campaigns (run_world env cid test_mode cs rs)) = Some c'
          \<and> c_failed_count c'
              = int (length (filter (\<lambda>k. \<not> accepted (sg_send env k
                      (build_message env (selected cid test_mode rs ! k) c)))
                    [0..<length (selected cid test_mode rs)]))
          \<and> c_status c' \<noteq> ''failed'')"
proof -
  let ?sel = "selected cid test_mode rs"
  let ?oks = "send_results env c 0 ?sel"
  let ?ps = "zip ?sel ?oks"
  note up = assms(1) and found = assms(2) and valid = assms(3) and dist = assms(4) and j = assms(5)
  have a: "run_completion env cid test_mode cs rs = Returns"
    by (rule run_ok(1)[OF up found valid])
  have dps: "distinct (map (\<lambda>p. r_id (fst p)) ?ps)"
    by (rule zip_ids_distinct[OF distinct_selected[OF dist]]) simp
  have inrs: "?sel ! j \<in> set rs"
    using j selected_subset[of cid test_mode rs] by (meson nth_mem subsetD)
  have inps: "(?sel ! j, ?oks ! j) \<in> set ?ps"
    using j by (auto simp: set_zip)
  have st: "status_of (?oks ! j) =
      (case sg_send env j (build_message env (?sel ! j) c) of
         Response status_code \<Rightarrow> if status_code = 202 then ''sent'' else ''failed''
       | SendError \<Rightarrow> ''failed'')"
    using send_results_nth[OF j, of env c 0]
    by (simp add: status_of_def split: sg_outcome.split)
  have "find (\<lambda>d. r_id d = r_id (?sel ! j)) (recipients (run_world env cid test_mode cs rs))
        = Some (mark ?ps (?sel ! j))"
    unfolding run_recipients_mark[OF up found valid dist]
    by (simp add: find_map_id find_id_distinct[OF dist inrs])
  also have "mark ?ps (?sel ! j) = (?sel ! j)\<lparr>r_status := status_of (?oks ! j)\<rparr>"
    by (rule mark_hit[OF dps inps refl])
  finally have b: "find (\<lambda>d. r_id d = r_id (?sel ! j)) (recipients (run_world env cid test_mode cs rs))
        = Some ((?sel ! j)\<lparr>r_status := status_of (?oks ! j)\<rparr>)" .
  have oks: "?oks = map (\<lambda>k. accepted (sg_send env k (build_message env (?sel ! k) c))) [0..<length ?sel]"
    by (rule nth_equalityI) (simp_all add: send_results_nth)
  have "length (filter Not ?oks)
        = length (filter (\<lambda>k. \<not> accepted (sg_send env k (build_message env (?sel ! k) c))) [0..<length ?sel])"
    by (subst oks) (simp add: filter_map comp_def)
  then have c: "\<exists>c'. find (\<lambda>c. c_id c = cid) (campaigns (run_world env cid test_mode cs rs)) = Some c'
          \<and> c_failed_count c'
              = int (length (filter (\<lambda>k. \<not> accepted (sg_send env k (build_message env (?sel ! k) c)))
                    [0..<length ?sel]))
          \<and> c_status c' \<noteq> ''failed''"
    by (simp add: run_campaign[OF up found valid])
  from a b c show ?thesis unfolding st by blast
qed

text \<open>
  Claim C6. The recipients whose status a run writes, when it meets no store error and
  reads documents that fit their models, are the selected ones: in test mode
  the first five pending recipients in store order when there are at least five, all of
  them when there are fewer; without test mode all pending recipients.
\<close>

theorem test_mode_cap:
  assumes "store_up env" and "find (\<lambda>c. c_id c = cid) cs = Some c"
    and "documents_valid env cid cs rs"
  shows "map fst (recipient_writes (trace (run_world env cid test_mode cs rs)))
           = map r_id (selected cid test_mode rs)
    \<and> (test_mode \<and> 5 \<le> length (pending cid rs) \<longrightarrow>
          selected cid test_mode rs = take 5 (pending cid rs) \<and> length (selected cid test_mode rs) = 5)
    \<and> (test_mode \<and> length (pending cid rs) < 5 \<longrightarrow> selected cid test_mode rs = pending cid rs)
    \<and> (\<not> test_mode \<longrightarrow> selected cid test_mode rs = pending cid rs)"
proof -
  have "map fst (map (\<lambda>(r, b). (r_id r, status_of b)) (zip sel bs)) = map r_id sel"
    if "length bs = length sel" for sel :: "recipient list" and bs :: "bool list"
    using that[symmetric] by (induction sel bs rule: list_induct2) simp_all
  then have "map fst (recipient_writes (trace (run_world env cid test_mode cs rs)))
           = map r_id (selected cid test_mode rs)"
    by (simp add: run_ok(4)[OF assms] recipient_writes_append loop_events_proj)
  then show ?thesis
    by (simp add: selected_def limit_test_mode_def)
qed

lemma demo_up: "store_up demo_env"
  by (simp add: store_up_def demo_env_def)

lemma demo_found: "find (\<lambda>c. c_id c = ''c1'') [demo_campaign] = Some demo_campaign"
  by (simp add: demo_campaign_def)

lemma demo_valid: "documents_valid demo_env ''c1'' [demo_campaign] rs"
  by (simp add: documents_valid_def demo_env_def demo_campaign_def list_all_iff)

lemma demo_distinct: "distinct (map r_id demo_store)"
  by (simp add: demo_store_def demo_recipient_def)

lemma demo_pending:
  "pending ''c1'' demo_store = [demo_recipient ''a'' (Some ''Ana'') ''pending'', demo_recipient ''b'' None ''pending'']"
  by (simp add: pending_def demo_store_def demo_recipient_def)

lemma demo_selected:
  "selected ''c1'' tm demo_store = [demo_recipient ''a'' (Some ''Ana'') ''pending'', demo_recipient ''b'' None ''pending'']"
  by (simp add: selected_def limit_test_mode_def demo_pending)

lemma demo_six_pending: "pending ''c1'' demo_six = demo_six"
  by (simp add: pending_def demo_six_def demo_recipient_def)

lemma demo_twelve_selected: "selected ''c1'' False demo_twelve = demo_twelve"
  by (simp add: selected_def limit_test_mode_def pending_def demo_twelve_def demo_recipient_def)

theorem counter_invariant_witness:
  "store_up demo_env
   \<and> find (\<lambda>c. c_id c = ''c1'') [demo_campaign] = Some demo_campaign
   \<and> documents_valid demo_env ''c1'' [demo_campaign] demo_store
   \<and> distinct (map r_id demo_store)
   \<and> run_completion demo_env ''c1'' False [demo_campaign] demo_store = Returns
   \<and> (\<exists>c'. find (\<lambda>c. c_id c = ''c1'') (campaigns (run_world demo_env ''c1'' False [demo_campaign] demo_store)) = Some c'
          \<and> c_sent_count c' + c_failed_count c' = 2)
   \<and> map r_id (recipients (run_world demo_env ''c1'' False [demo_campaign] demo_store)) = [''a'', ''b'', ''z'']"
  using counter_invariant[OF demo_up demo_found demo_valid demo_distinct, of False]
    demo_up demo_found demo_valid[of demo_store] demo_distinct
  by (simp add: demo_selected) (simp add: demo_store_def demo_recipient_def)

theorem batch_partition_witness:
  "store_up demo_env
   \<and> find (\<lambda>c. c_id c = ''c1'') [demo_campaign] = Some demo_campaign
   \<and> documents_valid demo_env ''c1'' [demo_campaign] demo_twelve
   \<and> length (gathered (trace (run_world demo_env ''c1'' False [demo_campaign] demo_twelve))) = 2
   \<and> concat (gathered (trace (run_world demo_env ''c1'' False [demo_campaign] demo_twelve))) = demo_twelve
   \<and> length (gathered (trace (run_world demo_env ''c1'' False [demo_campaign] demo_twelve)) ! 0) = 10
   \<and> gathered (trace (run_world demo_env ''c1'' False [demo_campaign] demo_twelve)) ! 1 = drop 10 demo_twelve
   \<and> length (sent_mails (trace (run_world demo_env ''c1'' False [demo_campaign] demo_twelve))) = 12"
proof -
  let ?g = "gathered (trace (run_world demo_env ''c1'' False [demo_campaign] demo_twelve))"
  note t = batch_partition[where rs = demo_twelve and test_mode = False,
      OF demo_up demo_found demo_valid]
  have l12: "length demo_twelve = 12" by (simp add: demo_twelve_def)
  from t have len: "length ?g = 2" by (simp add: demo_twelve_selected l12)
  from t have cat: "concat ?g = demo_twelve" by (simp add: demo_twelve_selected)
  from t len have full: "length (?g ! 0) = 10" by (simp add: demo_twelve_selected l12)
  from t have "\<forall>k<length ?g. ?g ! k = take 10 (drop (10 * k) (selected ''c1'' False demo_twelve))"
    by blast
  with len have "?g ! 1 = take 10 (drop (10 * 1) (selected ''c1'' False demo_twelve))" by simp
  then have last: "?g ! 1 = drop 10 demo_twelve" by (simp add: demo_twelve_selected l12)
  from t have mails: "length (sent_mails (trace (run_world demo_env ''c1'' False [demo_campaign] demo_twelve))) = 12"
    by (simp add: demo_twelve_selected l12)
  from demo_up demo_found demo_valid[of demo_twelve] len cat full last mails show ?thesis by simp
qed

theorem terminal_write_witness:
  "store_up demo_env
   \<and> find (\<lambda>c. c_id c = ''c1'') [demo_campaign] = Some demo_campaign
   \<and> documents_valid demo_env ''c1'' [demo_campaign] [demo_recipient ''z'' None ''sent'']
   \<and> selected ''c1'' False [demo_recipient ''z'' None ''sent''] = []
   \<and> campaign_writes (trace (run_world demo_env ''c1'' False [demo_campaign] [demo_recipient ''z'' None ''sent''])) =
       [(''c1'', [SetStatus ''sending'', SetUpdatedAt 101]),
        (''c1'', [SetStatus ''completed'', SetSentCount 0, SetFailedCount 0, SetUpdatedAt 103])]
   \<and> (\<exists>c'. find (\<lambda>c. c_id c = ''c1'')
              (campaigns (run_world demo_env ''c1'' False [demo_campaign] [demo_recipient ''z'' None ''sent''])) = Some c'
          \<and> c_sent_count c' = 0 \<and> c_failed_count c' = 0 \<and> c_status c' = ''completed'')
   \<and> sent_mails (trace (run_world demo_env ''c1'' False [demo_campaign] [demo_recipient ''z'' None ''sent''])) = []"
proof -
  have sel: "selected ''c1'' False [demo_recipient ''z'' None ''sent''] = []"
    by (simp add: selected_def limit_test_mode_def pending_def demo_recipient_def)
  have n: "now demo_env 1 = 101" "now demo_env 3 = 103" by (simp_all add: demo_env_def)
  from terminal_write[where rs = "[demo_recipient ''z'' None ''sent'']" and test_mode = False,
      OF demo_up demo_found demo_valid]
    demo_up demo_found demo_valid[of "[demo_recipient ''z'' None ''sent'']"] sel n
  show ?thesis by simp
qed

theorem failure_isolation_witness:
  "store_up demo_env
   \<and> find (\<lambda>c. c_id c = ''c1'') [demo_campaign] = Some demo_campaign
   \<and> documents_valid demo_env ''c1'' [demo_campaign] demo_store
   \<and> distinct (map r_id demo_store)
   \<and> 0 < length (selected ''c1'' False demo_store) \<and> 1 < length (selected ''c1'' False demo_store)
   \<and> sg_send demo_env 0 (build_message demo_env (demo_recipient ''a'' (Some ''Ana'') ''pending'') demo_campaign)
       = SendError
   \<and> find (\<lambda>d. r_id d = ''a'') (recipients (run_world demo_env ''c1'' False [demo_campaign] demo_store))
       = Some (demo_recipient ''a'' (Some ''Ana'') ''failed'')
   \<and> find (\<lambda>d. r_id d = ''b'') (recipients (run_world demo_env ''c1'' False [demo_campaign] demo_store))
       = Some (demo_recipient ''b'' None ''sent'')
   \<and> run_completion demo_env ''c1'' False [demo_campaign] demo_store = Returns"
proof -
  have j0: "0 < length (selected ''c1'' False demo_store)"
    and j1: "1 < length (selected ''c1'' False demo_store)"
    by (simp_all add: demo_selected)
  have s0: "sg_send demo_env 0 m = SendError" and s1: "sg_send demo_env (Suc 0) m = Response 202" for m
    by (simp_all add: demo_env_def)
  from failure_isolation[OF demo_up demo_found demo_valid demo_distinct j0]
  have a: "find (\<lambda>d. r_id d = ''a'') (recipients (run_world demo_env ''c1'' False [demo_campaign] demo_store))
       = Some (demo_recipient ''a'' (Some ''Ana'') ''failed'')"
    and r: "run_completion demo_env ''c1'' False [demo_campaign] demo_store = Returns"
    by (simp_all add: demo_selected s0 s1 demo_recipient_def)
  from failure_isolation[OF demo_up demo_found demo_valid demo_distinct j1]
  have b: "find (\<lambda>d. r_id d = ''b'') (recipients (run_world demo_env ''c1'' False [demo_campaign] demo_store))
       = Some (demo_recipient ''b'' None ''sent'')"
    by (simp add: demo_selected s0 s1 demo_recipient_def)
  from demo_up demo_found demo_valid[of demo_store] demo_distinct j0 j1 s0 a b r
  show ?thesis by simp
qed

theorem test_mode_cap_witness:
  "store_up demo_env
   \<and> find (\<lambda>c. c_id c = ''c1'') [demo_campaign] = Some demo_campaign
   \<and> documents_valid demo_env ''c1'' [demo_campaign] demo_six
   \<and> documents_valid demo_env ''c1'' [demo_campaign] demo_store
   \<and> 5 \<le> length (pending ''c1'' demo_six)
   \<and> selected ''c1'' True demo_six = take 5 demo_six
   \<and> map fst (recipient_writes (trace (run_world demo_env ''c1'' True [demo_campaign] demo_six)))
       = [''a'', ''b'', ''c'', ''d'', ''e'']
   \<and> length (pending ''c1'' demo_store) < 5
   \<and> selected ''c1'' True demo_store = pending ''c1'' demo_store
   \<and> selected ''c1'' False demo_six = pending ''c1'' demo_six
   \<and> map fst (recipient_writes (trace (run_world demo_env ''c1'' False [demo_campaign] demo_six)))
       = [''a'', ''b'', ''c'', ''d'', ''e'', ''f'']"
proof -
  have l6: "5 \<le> length (pending ''c1'' demo_six)" by (simp add: demo_six_pending) (simp add: demo_six_def)
  have l3: "length (pending ''c1'' demo_store) < 5" by (simp add: demo_pending)
  have ids: "map r_id demo_six = [''a'', ''b'', ''c'', ''d'', ''e'', ''f'']"
    by (simp add: demo_six_def demo_recipient_def)
  from test_mode_cap[where rs = demo_six and test_mode = True, OF demo_up demo_found demo_valid] l6
  have a: "selected ''c1'' True demo_six = take 5 demo_six"
    and b: "map fst (recipient_writes (trace (run_world demo_env ''c1'' True [demo_campaign] demo_six)))
       = map r_id (take 5 demo_six)"
    by (simp_all add: demo_six_pending)
  from test_mode_cap[where rs = demo_store and test_mode = True, OF demo_up demo_found demo_valid] l3
  have c: "selected ''c1'' True demo_store = pending ''c1'' demo_store" by simp
  from test_mode_cap[where rs = demo_six and test_mode = False, OF demo_up demo_found demo_valid]
  have d: "selected ''c1'' False demo_six = pending ''c1'' demo_six"
    and e: "map fst (recipient_writes (trace (run_world demo_env ''c1'' False [demo_campaign] demo_six)))
       = map r_id demo_six"
    by (simp_all add: demo_six_pending)
  from b have b': "map fst (recipient_writes (trace (run_world demo_env ''c1'' True [demo_campaign] demo_six)))
       = [''a'', ''b'', ''c'', ''d'', ''e'']"
    by (simp add: take_map[symmetric] ids del: take_map)
  from demo_up demo_found demo_valid[of demo_six] demo_valid[of demo_store] l6 l3 a b' c d e ids
  show ?thesis by simp
qed

section \<open>Runs with store errors: proofs\<close>

lemma same_campaigns_refl [simp]: "same_campaigns w w"
  by (simp add: same_campaigns_def)

lemma same_campaigns_trans: "same_campaigns w w1 \<Longrightarrow> same_campaigns w1 w2 \<Longrightarrow> same_campaigns w w2"
  by (simp add: same_campaigns_def)

lemma recipients_update_one_frame:
  "recipients_update_one env rid st w = (res, w1) \<Longrightarrow> same_campaigns w w1"
  by (auto simp: recipients_update_one_def same_campaigns_def campaign_writes_append
        split: if_splits)

lemma update_statuses_frame:
  "update_statuses env ps s f w = (res, w1) \<Longrightarrow> same_campaigns w w1"
proof (induction ps arbitrary: s f w)
  case Nil
  then show ?case by simp
next
  case (Cons p ps)
  obtain r result where p: "p = (r, result)" by (cases p)
  define st where "st = (case result of RaisedException \<Rightarrow> ''failed''
                         | Returned b \<Rightarrow> if b then ''sent'' else ''failed'')"
  obtain x w' where step: "recipients_update_one env (r_id r) st w = (x, w')"
    by (cases "recipients_update_one env (r_id r) st w")
  have fr: "same_campaigns w w'" by (rule recipients_update_one_frame[OF step])
  show ?case
  proof (cases x)
    case (Inl e)
    with Cons.prems step have "w1 = w'"
      by (auto simp: p st_def split: task_result.splits if_splits)
    with fr show ?thesis by simp
  next
    case (Inr u)
    with Cons.prems step obtain s' f' where "update_statuses env ps s' f' w' = (res, w1)"
      by (auto simp: p st_def split: task_result.splits if_splits)
    from Cons.IH[OF this] fr show ?thesis by (rule same_campaigns_trans[rotated])
  qed
qed

lemma gather_frame: "same_campaigns w (snd (gather env c rs w))"
  by (simp add: gather_eq same_campaigns_def campaign_writes_append gather_events_proj)

lemma run_batch_frame:
  "run_batch env c batch s f w = (res, w1) \<Longrightarrow> same_campaigns w w1"
proof -
  assume a: "run_batch env c batch s f w = (res, w1)"
  have g: "same_campaigns w (snd (gather env c batch (emit (Gather batch) w)))"
    using gather_frame[of "emit (Gather batch) w" env c batch]
    by (simp add: same_campaigns_def emit_def campaign_writes_append)
  from a have "update_statuses env (zip batch (fst (gather env c batch (emit (Gather batch) w)))) s f
                 (snd (gather env c batch (emit (Gather batch) w))) = (res, w1)"
    by (simp add: run_batch_def split: prod.splits)
  from same_campaigns_trans[OF g update_statuses_frame[OF this]] show ?thesis .
qed

lemma process_batches_frame:
  "process_batches env c rs i s f w = (res, w1) \<Longrightarrow> same_campaigns w w1"
proof (induction "length rs - i" arbitrary: i s f w rule: less_induct)
  case less
  show ?case
  proof (cases "i < length rs")
    case False
    with less.prems show ?thesis by (simp add: process_batches.simps[of env c rs i])
  next
    case True
    have dec: "length rs - (i + batch_size) < length rs - i"
      using True by (simp add: batch_size_def)
    obtain x w' where rb: "run_batch env c (take batch_size (drop i rs)) s f w = (x, w')"
      by (cases "run_batch env c (take batch_size (drop i rs)) s f w")
    have fr: "same_campaigns w w'" by (rule run_batch_frame[OF rb])
    show ?thesis
    proof (cases x)
      case (Inl e)
      with less.prems True rb have "w1 = w'"
        by (simp add: process_batches.simps[of env c rs i])
      with fr show ?thesis by simp
    next
      case (Inr sf)
      obtain s' f' where sf: "sf = (s', f')" by (cases sf)
      define w2 where "w2 = (if i + batch_size < length rs then emit (Sleep 1) w' else w')"
      have fr2: "same_campaigns w' w2"
        by (simp add: w2_def same_campaigns_def emit_def campaign_writes_append)
      from less.prems True rb Inr sf
      have "process_batches env c rs (i + batch_size) s' f' w2 = (res, w1)"
        by (simp add: process_batches.simps[of env c rs i] w2_def)
      from less.hyps[OF dec this] fr fr2 show ?thesis
        by (meson same_campaigns_trans)
    qed
  qed
qed

lemma run_body_cases:
  assumes rb: "run_body env cid tm w = (res, w1)"
  shows "(campaigns w1 = campaigns w \<and> campaign_writes (trace w1) = campaign_writes (trace w)
          \<and> (isl res \<or> find (\<lambda>c. c_id c = cid) (campaigns w) = None))
    \<or> (isl res
        \<and> campaigns w1 = update_first (\<lambda>c. c_id c = cid)
             (apply_sets [SetStatus ''sending'', SetUpdatedAt (now env (Suc (db_ops w)))]) (campaigns w)
        \<and> campaign_writes (trace w1) = campaign_writes (trace w)
             @ [(cid, [SetStatus ''sending'', SetUpdatedAt (now env (Suc (db_ops w)))])])
    \<or> (res = Inr () \<and> find (\<lambda>c. c_id c = cid) (campaigns w) \<noteq> None
        \<and> (\<exists>sent failed t.
             campaigns w1 = update_first (\<lambda>c. c_id c = cid)
               (apply_sets [SetStatus (if failed = 0 then ''completed'' else ''completed_with_errors''),
                            SetSentCount sent, SetFailedCount failed, SetUpdatedAt t])
               (update_first (\<lambda>c. c_id c = cid)
                 (apply_sets [SetStatus ''sending'', SetUpdatedAt (now env (Suc (db_ops w)))]) (campaigns w))
           \<and> campaign_writes (trace w1) = campaign_writes (trace w)
               @ [(cid, [SetStatus ''sending'', SetUpdatedAt (now env (Suc (db_ops w)))]),
                  (cid, [SetStatus (if failed = 0 then ''completed'' else ''completed_with_errors''),
                         SetSentCount sent, SetFailedCount failed, SetUpdatedAt t])]))"
    (is "?A \<or> ?B \<or> ?C")
proof (cases "db_fault env (db_ops w)")
  case True
  with rb have "w1 = w\<lparr>db_ops := Suc (db_ops w)\<rparr>" and "res = Inl StoreError"
    by (simp_all add: run_body_def campaigns_find_one_def)
  then show ?thesis by simp
next
  case f0: False
  show ?thesis
  proof (cases "find (\<lambda>c. c_id c = cid) (campaigns w)")
    case None
    with rb f0 have "w1 = emit (Log (CampaignNotFound cid)) (w\<lparr>db_ops := Suc (db_ops w)\<rparr>)"
      by (simp add: run_body_def campaigns_find_one_def)
    then show ?thesis using None by (simp add: emit_def campaign_writes_append)
  next
    case (Some campaign_doc)
    show ?thesis
    proof (cases "validate_campaign env campaign_doc")
      case (Inl e)
      with rb f0 Some have "w1 = w\<lparr>db_ops := Suc (db_ops w)\<rparr>" and "res = Inl e"
        by (simp_all add: run_body_def campaigns_find_one_def)
      then show ?thesis by simp
    next
      case vc: (Inr c)
      show ?thesis
      proof (cases "db_fault env (Suc (db_ops w))")
        case True
        with rb f0 Some vc have "w1 = w\<lparr>db_ops := Suc (Suc (db_ops w))\<rparr>" and "res = Inl StoreError"
          by (simp_all add: run_body_def campaigns_find_one_def campaigns_update_one_def)
        then show ?thesis by simp
      next
        case f1: False
        let ?S = "[SetStatus ''sending'', SetUpdatedAt (now env (Suc (db_ops w)))]"
        define w2 where "w2 = w\<lparr>campaigns := update_first (\<lambda>c. c_id c = cid) (apply_sets ?S) (campaigns w),
                                 db_ops := Suc (Suc (db_ops w)),
                                 trace := trace w @ [CampaignUpdate cid ?S]\<rparr>"
        have w2c: "campaigns w2 = update_first (\<lambda>c. c_id c = cid) (apply_sets ?S) (campaigns w)"
          and w2t: "campaign_writes (trace w2) = campaign_writes (trace w) @ [(cid, ?S)]"
          by (simp_all add: w2_def campaign_writes_append)
        have fnd: "find (\<lambda>c. c_id c = cid) (campaigns w) \<noteq> None"
          using Some by simp
        have body: "run_body env cid tm w =
            (case recipients_find_pending env cid w2 of
               (Inl e, w3) \<Rightarrow> (Inl e, w3)
             | (Inr found, w3) \<Rightarrow>
             (case read_recipients env found of
                Inl e \<Rightarrow> (Inl e, w3)
              | Inr rs \<Rightarrow>
                 (case process_batches env c (limit_test_mode tm rs) 0 0 0 w3 of
                    (Inl e, w4) \<Rightarrow> (Inl e, w4)
                  | (Inr (sent_count, failed_count), w4) \<Rightarrow>
                      (case campaigns_update_one env cid
                              [SetStatus (if failed_count = 0 then ''completed''
                                          else ''completed_with_errors''),
                               SetSentCount sent_count,
                               SetFailedCount failed_count,
                               SetUpdatedAt (now env (db_ops w4))] w4 of
                         (Inl e, w5) \<Rightarrow> (Inl e, w5)
                       | (Inr u, w5) \<Rightarrow>
                           (Inr (), emit (Log (CampaignCompleted cid sent_count failed_count)) w5)))))"
          using f0 f1 Some vc
          by (simp add: run_body_def campaigns_find_one_def campaigns_update_one_def w2_def)
        show ?thesis
        proof (cases "db_fault env (db_ops w2)")
          case True
          with rb body have "res = Inl StoreError" and "w1 = w2\<lparr>db_ops := Suc (db_ops w2)\<rparr>"
            by (simp_all add: recipients_find_pending_def)
          with w2c w2t have ?B by simp
          then show ?thesis by blast
        next
          case f2: False
          let ?w3 = "w2\<lparr>db_ops := Suc (db_ops w2)\<rparr>"
          let ?found = "filter (\<lambda>r. r_campaign_id r = Some cid \<and> r_status r = ''pending'')
              (recipients w2)"
          have body1: "run_body env cid tm w =
             (case read_recipients env ?found of
                Inl e \<Rightarrow> (Inl e, ?w3)
              | Inr rs \<Rightarrow>
                 (case process_batches env c (limit_test_mode tm rs) 0 0 0 ?w3 of
                    (Inl e, w4) \<Rightarrow> (Inl e, w4)
                  | (Inr (sent_count, failed_count), w4) \<Rightarrow>
                      (case campaigns_update_one env cid
                              [SetStatus (if failed_count = 0 then ''completed''
                                          else ''completed_with_errors''),
                               SetSentCount sent_count,
                               SetFailedCount failed_count,
                               SetUpdatedAt (now env (db_ops w4))] w4 of
                         (Inl e, w5) \<Rightarrow> (Inl e, w5)
                       | (Inr u, w5) \<Rightarrow>
                           (Inr (), emit (Log (CampaignCompleted cid sent_count failed_count)) w5))))"
            using f2 by (simp add: body recipients_find_pending_def)
          show ?thesis
          proof (cases "read_recipients env ?found")
            case (Inl e)
            with rb body1 have "res = Inl e" and "w1 = ?w3" by simp_all
            with w2c w2t have ?B by simp
            then show ?thesis by blast
          next
            case vr: (Inr recs)
            define sel where "sel = limit_test_mode tm recs"
            obtain x w4 where pb: "process_batches env c sel 0 0 0 ?w3 = (x, w4)"
              by (cases "process_batches env c sel 0 0 0 ?w3")
            from process_batches_frame[OF pb]
            have w4c: "campaigns w4 = campaigns w2"
              and w4t: "campaign_writes (trace w4) = campaign_writes (trace w2)"
              by (simp_all add: same_campaigns_def)
            have body2: "run_body env cid tm w =
                (case x of
                   Inl e \<Rightarrow> (Inl e, w4)
                 | Inr sf \<Rightarrow>
                    (case campaigns_update_one env cid
                            [SetStatus (if snd sf = 0 then ''completed'' else ''completed_with_errors''),
                             SetSentCount (fst sf), SetFailedCount (snd sf),
                             SetUpdatedAt (now env (db_ops w4))] w4 of
                       (Inl e, w5) \<Rightarrow> (Inl e, w5)
                     | (Inr u, w5) \<Rightarrow> (Inr (), emit (Log (CampaignCompleted cid (fst sf) (snd sf))) w5)))"
              using pb vr
              by (simp add: body1 sel_def split: sum.splits prod.splits)
            show ?thesis
            proof (cases x)
              case (Inl e)
              with rb body2 have "res = Inl e" and "w1 = w4" by simp_all
              then have ?B using w4c w4t w2c w2t by simp
              then show ?thesis by blast
            next
              case (Inr sf)
              show ?thesis
              proof (cases "db_fault env (db_ops w4)")
                case True
                with rb body2 Inr have "res = Inl StoreError" and "w1 = w4\<lparr>db_ops := Suc (db_ops w4)\<rparr>"
                  by (simp_all add: campaigns_update_one_def)
                with w4c w4t w2c w2t have ?B by simp
                then show ?thesis by blast
              next
                case False
                let ?F = "[SetStatus (if snd sf = 0 then ''completed'' else ''completed_with_errors''),
                           SetSentCount (fst sf), SetFailedCount (snd sf),
                           SetUpdatedAt (now env (db_ops w4))]"
                from rb body2 Inr False have r: "res = Inr ()"
                  and w1: "w1 = emit (Log (CampaignCompleted cid (fst sf) (snd sf)))
                      (w4\<lparr>campaigns := update_first (\<lambda>c. c_id c = cid) (apply_sets ?F) (campaigns w4),
                          db_ops := Suc (db_ops w4),
                          trace := trace w4 @ [CampaignUpdate cid ?F]\<rparr>)"
                  by (simp_all add: campaigns_update_one_def)
                have c1: "campaigns w1 = update_first (\<lambda>c. c_id c = cid) (apply_sets ?F)
                            (update_first (\<lambda>c. c_id c = cid) (apply_sets ?S) (campaigns w))"
                  by (simp add: w1 emit_def w4c w2c)
                have t1: "campaign_writes (trace w1) = campaign_writes (trace w) @ [(cid, ?S), (cid, ?F)]"
                  by (simp add: w1 emit_def campaign_writes_append w4t w2t)
                from r fnd c1 t1 have ?C by blast
                then show ?thesis by blast
              qed
            qed
          qed
        qed
      qed
    qed
  qed
qed

lemma body_pair:
  "run_body env cid tm (start cs rs) = (body_result env cid tm cs rs, body_world env cid tm cs rs)"
  by (simp add: body_result_def body_world_def)

lemma run_after_ok:
  "body_result env cid tm cs rs = Inr u \<Longrightarrow>
   process_bulk_email_campaign env cid tm (start cs rs) = (Returns, body_world env cid tm cs rs)"
  by (simp add: process_bulk_email_campaign_def body_pair)

lemma run_after_fault_caught:
  "body_result env cid tm cs rs = Inl e \<Longrightarrow> \<not> db_fault env (db_ops (body_world env cid tm cs rs)) \<Longrightarrow>
   process_bulk_email_campaign env cid tm (start cs rs) =
     (Returns,
      (body_world env cid tm cs rs)
        \<lparr>campaigns := update_first (\<lambda>c. c_id c = cid)
           (apply_sets [SetStatus ''failed'', SetUpdatedAt (now env (db_ops (body_world env cid tm cs rs)))])
           (campaigns (body_world env cid tm cs rs)),
         db_ops := Suc (db_ops (body_world env cid tm cs rs)),
         trace := trace (body_world env cid tm cs rs)
           @ [Log (CampaignError cid),
              CampaignUpdate cid [SetStatus ''failed'',
                SetUpdatedAt (now env (db_ops (body_world env cid tm cs rs)))]]\<rparr>)"
  by (simp add: process_bulk_email_campaign_def body_pair campaigns_update_one_def emit_def)

lemma run_after_fault_raised:
  "body_result env cid tm cs rs = Inl e \<Longrightarrow> db_fault env (db_ops (body_world env cid tm cs rs)) \<Longrightarrow>
   process_bulk_email_campaign env cid tm (start cs rs) =
     (Raises StoreError,
      (body_world env cid tm cs rs)
        \<lparr>db_ops := Suc (db_ops (body_world env cid tm cs rs)),
         trace := trace (body_world env cid tm cs rs) @ [Log (CampaignError cid)]\<rparr>)"
  by (simp add: process_bulk_email_campaign_def body_pair campaigns_update_one_def emit_def)

lemma body_cases:
  "(campaigns (body_world env cid tm cs rs) = cs \<and> campaign_writes (trace (body_world env cid tm cs rs)) = []
     \<and> (isl (body_result env cid tm cs rs) \<or> find (\<lambda>c. c_id c = cid) cs = None))
   \<or> (isl (body_result env cid tm cs rs)
       \<and> campaigns (body_world env cid tm cs rs) = update_first (\<lambda>c. c_id c = cid)
             (apply_sets [SetStatus ''sending'', SetUpdatedAt (now env 1)]) cs
       \<and> campaign_writes (trace (body_world env cid tm cs rs))
             = [(cid, [SetStatus ''sending'', SetUpdatedAt (now env 1)])])
   \<or> (body_result env cid tm cs rs = Inr () \<and> find (\<lambda>c. c_id c = cid) cs \<noteq> None
       \<and> (\<exists>sent failed t.
             campaigns (body_world env cid tm cs rs) = update_first (\<lambda>c. c_id c = cid)
               (apply_sets [SetStatus (if failed = 0 then ''completed'' else ''completed_with_errors''),
                            SetSentCount sent, SetFailedCount failed, SetUpdatedAt t])
               (update_first (\<lambda>c. c_id c = cid)
                 (apply_sets [SetStatus ''sending'', SetUpdatedAt (now env 1)]) cs)
           \<and> campaign_writes (trace (body_world env cid tm cs rs))
               = [(cid, [SetStatus ''sending'', SetUpdatedAt (now env 1)]),
                  (cid, [SetStatus (if failed = 0 then ''completed'' else ''completed_with_errors''),
                         SetSentCount sent, SetFailedCount failed, SetUpdatedAt t])]))"
  using run_body_cases[OF body_pair, of env cid tm cs rs] by simp

lemma status_writes_simps:
  "status_writes [] = []"
  "status_writes (es @ es') = status_writes es @ status_writes es'"
  "status_writes (Log l # es) = status_writes es"
  "status_writes (CampaignUpdate cid fs # es) = statuses_set fs @ status_writes es"
  by (simp_all add: status_writes_def campaign_writes_append)

lemma status_writes_eq:
  "campaign_writes es = ws \<Longrightarrow> status_writes es = concat (map (\<lambda>(cid, fs). statuses_set fs) ws)"
  by (simp add: status_writes_def)

lemma body_status_writes:
  "status_writes (trace (body_world env cid tm cs rs))
     \<in> {[], [''sending''], [''sending'', ''completed''], [''sending'', ''completed_with_errors'']}"
  using body_cases[of env cid tm cs rs]
  by (auto simp: status_writes_def split: if_splits)

lemma body_status_writes_fault:
  "body_result env cid tm cs rs = Inl e \<Longrightarrow>
   status_writes (trace (body_world env cid tm cs rs)) \<in> {[], [''sending'']}"
  using body_cases[of env cid tm cs rs]
  by (auto simp: status_writes_def)

lemma body_status_writes_ok:
  "body_result env cid tm cs rs = Inr () \<Longrightarrow> find (\<lambda>c. c_id c = cid) cs \<noteq> None \<Longrightarrow>
   status_writes (trace (body_world env cid tm cs rs))
     \<in> {[''sending'', ''completed''], [''sending'', ''completed_with_errors'']}"
  using body_cases[of env cid tm cs rs]
  by (auto simp: status_writes_def split: if_splits)

text \<open>
  Claim C8, as amended. The campaign status values a run writes are, in order, one of:
  nothing; \<^verbatim>\<open>failed\<close> alone; \<^verbatim>\<open>sending\<close> alone; \<^verbatim>\<open>sending\<close> followed by one of
  \<^verbatim>\<open>failed\<close>, \<^verbatim>\<open>completed\<close>, \<^verbatim>\<open>completed_with_errors\<close>. So \<^verbatim>\<open>sending\<close> is
  written at most once and only first, a terminal status at most once and only last, and
  \<^verbatim>\<open>draft\<close> never. When the \<^verbatim>\<open>try\<close> block ends without exception on an existing
  campaign, the values are \<^verbatim>\<open>sending\<close> and then \<^verbatim>\<open>completed\<close> or
  \<^verbatim>\<open>completed_with_errors\<close>. When an exception leaves the \<^verbatim>\<open>try\<close> block and the
  write of the handler does not raise, they are \<^verbatim>\<open>failed\<close> alone or \<^verbatim>\<open>sending\<close>
  and then \<^verbatim>\<open>failed\<close>. The \<^verbatim>\<open>try\<close> block ends without exception when no store
  operation raises and the documents read fit their models.
\<close>

theorem status_sequence:
  "status_writes (trace (run_world env cid test_mode cs rs))
     \<in> {[], [''failed''], [''sending''], [''sending'', ''failed''],
        [''sending'', ''completed''], [''sending'', ''completed_with_errors'']}
   \<and> (body_result env cid test_mode cs rs = Inr () \<and> find (\<lambda>c. c_id c = cid) cs \<noteq> None \<longrightarrow>
        status_writes (trace (run_world env cid test_mode cs rs))
          \<in> {[''sending'', ''completed''], [''sending'', ''completed_with_errors'']})
   \<and> (body_result env cid test_mode cs rs = Inl e
        \<and> \<not> db_fault env (db_ops (body_world env cid test_mode cs rs)) \<longrightarrow>
        status_writes (trace (run_world env cid test_mode cs rs))
          \<in> {[''failed''], [''sending'', ''failed'']})
   \<and> (store_up env \<and> find (\<lambda>c. c_id c = cid) cs \<noteq> None \<and> documents_valid env cid cs rs \<longrightarrow>
        body_result env cid test_mode cs rs = Inr ())"
proof -
  have a: "status_writes (trace (run_world env cid test_mode cs rs))
     \<in> {[], [''failed''], [''sending''], [''sending'', ''failed''],
        [''sending'', ''completed''], [''sending'', ''completed_with_errors'']}"
  proof (cases "body_result env cid test_mode cs rs")
    case (Inr u)
    from run_after_ok[OF this] body_status_writes[of env cid test_mode cs rs]
    show ?thesis by (auto simp: run_world_def)
  next
    case (Inl e)
    show ?thesis
    proof (cases "db_fault env (db_ops (body_world env cid test_mode cs rs))")
      case True
      from run_after_fault_raised[OF Inl True] body_status_writes_fault[OF Inl]
      show ?thesis by (auto simp: run_world_def status_writes_simps)
    next
      case False
      from run_after_fault_caught[OF Inl False] body_status_writes_fault[OF Inl]
      show ?thesis by (auto simp: run_world_def status_writes_simps)
    qed
  qed
  have b: "status_writes (trace (run_world env cid test_mode cs rs))
          \<in> {[''sending'', ''completed''], [''sending'', ''completed_with_errors'']}"
    if r: "body_result env cid test_mode cs rs = Inr ()" and f: "find (\<lambda>c. c_id c = cid) cs \<noteq> None"
    using run_after_ok[OF r] body_status_writes_ok[OF r f] by (simp add: run_world_def)
  have c: "status_writes (trace (run_world env cid test_mode cs rs))
          \<in> {[''failed''], [''sending'', ''failed'']}"
    if r: "body_result env cid test_mode cs rs = Inl e"
      and h: "\<not> db_fault env (db_ops (body_world env cid test_mode cs rs))"
    using run_after_fault_caught[OF r h] body_status_writes_fault[OF r]
    by (auto simp: run_world_def status_writes_simps)
  have d: "body_result env cid test_mode cs rs = Inr ()"
    if up: "store_up env" and f: "find (\<lambda>c. c_id c = cid) cs \<noteq> None"
      and v: "documents_valid env cid cs rs"
  proof -
    from f obtain c where c: "find (\<lambda>c. c_id c = cid) cs = Some c" by auto
    show ?thesis by (simp add: body_result_def run_body_ok[OF up c v])
  qed
  from a b c d show ?thesis by blast
qed

lemma counts_update_first:
  "map c_sent_count (update_first p (apply_sets [SetStatus s, SetUpdatedAt t]) cs) = map c_sent_count cs"
  "map c_failed_count (update_first p (apply_sets [SetStatus s, SetUpdatedAt t]) cs) = map c_failed_count cs"
  by (induction cs) (auto simp: apply_sets_def)

lemma body_fault_counts:
  assumes "body_result env cid tm cs rs = Inl e"
  shows "map c_sent_count (campaigns (body_world env cid tm cs rs)) = map c_sent_count cs"
    and "map c_failed_count (campaigns (body_world env cid tm cs rs)) = map c_failed_count cs"
  using body_cases[of env cid tm cs rs] assms
  by (auto simp: counts_update_first)

lemma body_fault_find:
  assumes "body_result env cid tm cs rs = Inl e" and "find (\<lambda>c. c_id c = cid) cs = Some c"
  shows "\<exists>c1. find (\<lambda>c. c_id c = cid) (campaigns (body_world env cid tm cs rs)) = Some c1"
  using body_cases[of env cid tm cs rs] assms
  by (auto simp: find_update_first)

text \<open>
  Claim C7, as amended. The \<^verbatim>\<open>try\<close> block never writes the status \<^verbatim>\<open>failed\<close>. When
  it ends without exception the run returns. When an exception leaves it and the write of
  the handler does not raise, the run returns, the handler has logged the error and
  written \<^verbatim>\<open>failed\<close> with the current time (the last two events of the trace), and an
  existing campaign ends with status \<^verbatim>\<open>failed\<close> and that time.
\<close>

theorem fault_handler:
  "''failed'' \<notin> set (status_writes (trace (body_world env cid test_mode cs rs)))
   \<and> (body_result env cid test_mode cs rs = Inr () \<longrightarrow>
        process_bulk_email_campaign env cid test_mode (start cs rs)
          = (Returns, body_world env cid test_mode cs rs))
   \<and> (body_result env cid test_mode cs rs = Inl e
        \<and> \<not> db_fault env (db_ops (body_world env cid test_mode cs rs)) \<longrightarrow>
        run_completion env cid test_mode cs rs = Returns
        \<and> trace (run_world env cid test_mode cs rs)
            = trace (body_world env cid test_mode cs rs)
              @ [Log (CampaignError cid),
                 CampaignUpdate cid [SetStatus ''failed'',
                   SetUpdatedAt (now env (db_ops (body_world env cid test_mode cs rs)))]]
        \<and> recipients (run_world env cid test_mode cs rs) = recipients (body_world env cid test_mode cs rs)
        \<and> (find (\<lambda>c. c_id c = cid) cs \<noteq> None \<longrightarrow>
             (\<exists>c'. find (\<lambda>c. c_id c = cid) (campaigns (run_world env cid test_mode cs rs)) = Some c'
                \<and> c_status c' = ''failed''
                \<and> c_updated_at c' = now env (db_ops (body_world env cid test_mode cs rs)))))"
proof -
  have a: "''failed'' \<notin> set (status_writes (trace (body_world env cid test_mode cs rs)))"
    using body_status_writes[of env cid test_mode cs rs] by auto
  have b: "process_bulk_email_campaign env cid test_mode (start cs rs)
          = (Returns, body_world env cid test_mode cs rs)"
    if "body_result env cid test_mode cs rs = Inr ()"
    using that by (rule run_after_ok)
  have c: "run_completion env cid test_mode cs rs = Returns
        \<and> trace (run_world env cid test_mode cs rs)
            = trace (body_world env cid test_mode cs rs)
              @ [Log (CampaignError cid),
                 CampaignUpdate cid [SetStatus ''failed'',
                   SetUpdatedAt (now env (db_ops (body_world env cid test_mode cs rs)))]]
        \<and> recipients (run_world env cid test_mode cs rs) = recipients (body_world env cid test_mode cs rs)
        \<and> (find (\<lambda>c. c_id c = cid) cs \<noteq> None \<longrightarrow>
             (\<exists>c'. find (\<lambda>c. c_id c = cid) (campaigns (run_world env cid test_mode cs rs)) = Some c'
                \<and> c_status c' = ''failed''
                \<and> c_updated_at c' = now env (db_ops (body_world env cid test_mode cs rs))))"
    if f: "body_result env cid test_mode cs rs = Inl e"
      and h: "\<not> db_fault env (db_ops (body_world env cid test_mode cs rs))"
  proof -
    note r = run_after_fault_caught[OF f h]
    have "\<exists>c'. find (\<lambda>c. c_id c = cid) (campaigns (run_world env cid test_mode cs rs)) = Some c'
                \<and> c_status c' = ''failed''
                \<and> c_updated_at c' = now env (db_ops (body_world env cid test_mode cs rs))"
      if "find (\<lambda>c. c_id c = cid) cs \<noteq> None"
    proof -
      from that obtain c0 where "find (\<lambda>c. c_id c = cid) cs = Some c0" by auto
      from body_fault_find[OF f this] obtain c1
        where "find (\<lambda>c. c_id c = cid) (campaigns (body_world env cid test_mode cs rs)) = Some c1" ..
      then show ?thesis
        by (simp add: run_world_def r find_update_first apply_sets_def)
    qed
    then show ?thesis
      by (simp add: run_world_def run_completion_def r)
  qed
  from a b c show ?thesis by blast
qed

text \<open>
  Claim C9. When an exception leaves the \<^verbatim>\<open>try\<close> block, the counters \<open>sent_count\<close>
  and \<open>failed_count\<close> of every campaign are what they were before the run; the only
  campaign write the handler adds sets the status and the timestamp, and it adds none
  when that write raises.
\<close>

theorem handler_frame:
  "body_result env cid test_mode cs rs = Inl e \<longrightarrow>
     map c_sent_count (campaigns (run_world env cid test_mode cs rs)) = map c_sent_count cs
     \<and> map c_failed_count (campaigns (run_world env cid test_mode cs rs)) = map c_failed_count cs
     \<and> (\<not> db_fault env (db_ops (body_world env cid test_mode cs rs)) \<longrightarrow>
          campaign_writes (trace (run_world env cid test_mode cs rs))
            = campaign_writes (trace (body_world env cid test_mode cs rs))
              @ [(cid, [SetStatus ''failed'',
                        SetUpdatedAt (now env (db_ops (body_world env cid test_mode cs rs)))])])
     \<and> (db_fault env (db_ops (body_world env cid test_mode cs rs)) \<longrightarrow>
          campaign_writes (trace (run_world env cid test_mode cs rs))
            = campaign_writes (trace (body_world env cid test_mode cs rs)))"
proof
  assume f: "body_result env cid test_mode cs rs = Inl e"
  note cnt = body_fault_counts[OF f]
  show "map c_sent_count (campaigns (run_world env cid test_mode cs rs)) = map c_sent_count cs
     \<and> map c_failed_count (campaigns (run_world env cid test_mode cs rs)) = map c_failed_count cs
     \<and> (\<not> db_fault env (db_ops (body_world env cid test_mode cs rs)) \<longrightarrow>
          campaign_writes (trace (run_world env cid test_mode cs rs))
            = campaign_writes (trace (body_world env cid test_mode cs rs))
              @ [(cid, [SetStatus ''failed'',
                        SetUpdatedAt (now env (db_ops (body_world env cid test_mode cs rs)))])])
     \<and> (db_fault env (db_ops (body_world env cid test_mode cs rs)) \<longrightarrow>
          campaign_writes (trace (run_world env cid test_mode cs rs))
            = campaign_writes (trace (body_world env cid test_mode cs rs)))"
  proof (cases "db_fault env (db_ops (body_world env cid test_mode cs rs))")
    case True
    from run_after_fault_raised[OF f True] cnt True show ?thesis
      by (simp add: run_world_def campaign_writes_append)
  next
    case False
    from run_after_fault_caught[OF f False] cnt False show ?thesis
      by (simp add: run_world_def campaign_writes_append counts_update_first)
  qed
qed

lemmas run_eval =
  run_body_def campaigns_find_one_def campaigns_update_one_def recipients_find_pending_def
  start_def demo_env_def demo_campaign_def demo_store_def demo_recipient_def limit_test_mode_def
  process_batches.simps run_batch_def batch_size_def emit_def send_single_email_eq
  recipients_update_one_def body_result_def body_world_def campaign_writes_append send_events_proj

lemma down_body:
  "body_result store_down_env ''c1'' False [demo_campaign] demo_store = Inl StoreError"
  "db_ops (body_world store_down_env ''c1'' False [demo_campaign] demo_store) = 1"
  "campaign_writes (trace (body_world store_down_env ''c1'' False [demo_campaign] demo_store)) = []"
  by (simp_all add: run_eval store_down_env_def)

lemma sending_body:
  "body_result sending_fault_env ''c1'' False [demo_campaign] demo_store = Inl StoreError"
  "db_ops (body_world sending_fault_env ''c1'' False [demo_campaign] demo_store) = 2"
  "campaign_writes (trace (body_world sending_fault_env ''c1'' False [demo_campaign] demo_store)) = []"
  by (simp_all add: run_eval sending_fault_env_def)

lemma invalid_campaign_body:
  "body_result invalid_campaign_env ''c1'' False [demo_campaign] demo_store = Inl ValidationError"
  "db_ops (body_world invalid_campaign_env ''c1'' False [demo_campaign] demo_store) = 1"
  "campaign_writes (trace (body_world invalid_campaign_env ''c1'' False [demo_campaign] demo_store)) = []"
  by (simp_all add: run_eval invalid_campaign_env_def)

lemma invalid_recipient_body:
  "body_result invalid_recipient_env ''c1'' False [demo_campaign] demo_store = Inl ValidationError"
  "db_ops (body_world invalid_recipient_env ''c1'' False [demo_campaign] demo_store) = 3"
  "campaign_writes (trace (body_world invalid_recipient_env ''c1'' False [demo_campaign] demo_store))
     = [(''c1'', [SetStatus ''sending'', SetUpdatedAt 101])]"
  by (simp_all add: run_eval invalid_recipient_env_def)

lemma late_body:
  "body_result late_fault_env ''c1'' False [demo_campaign] demo_store = Inl StoreError"
  "db_ops (body_world late_fault_env ''c1'' False [demo_campaign] demo_store) = 5"
  "map r_status (recipients (body_world late_fault_env ''c1'' False [demo_campaign] demo_store))
     = [''failed'', ''pending'', ''sent'']"
  "campaign_writes (trace (body_world late_fault_env ''c1'' False [demo_campaign] demo_store))
     = [(''c1'', [SetStatus ''sending'', SetUpdatedAt 101])]"
  by (simp_all add: run_eval late_fault_env_def campaign_writes_append)

text \<open>
  Claim C7 as stated fails: when the store raises on every operation, the write inside
  the handler raises too and the exception reaches the caller.
\<close>

theorem never_raises_counterexample:
  "run_completion store_down_env ''c1'' False [demo_campaign] demo_store = Raises StoreError"
proof -
  have "db_fault store_down_env (db_ops (body_world store_down_env ''c1'' False [demo_campaign] demo_store))"
    by (simp add: store_down_env_def)
  from run_after_fault_raised[OF down_body(1) this] show ?thesis
    by (simp add: run_completion_def)
qed

text \<open>
  Claim C8 as stated fails: when the write of \<^verbatim>\<open>sending\<close> raises, the handler writes
  \<^verbatim>\<open>failed\<close> and no \<^verbatim>\<open>sending\<close> comes before it.
\<close>

theorem sending_first_counterexample:
  "status_writes (trace (run_world sending_fault_env ''c1'' False [demo_campaign] demo_store)) = [''failed'']"
proof -
  have "\<not> db_fault sending_fault_env (db_ops (body_world sending_fault_env ''c1'' False [demo_campaign] demo_store))"
    by (simp add: sending_body(2)) (simp add: sending_fault_env_def)
  from run_after_fault_caught[OF sending_body(1) this] show ?thesis
    by (simp add: run_world_def status_writes_def campaign_writes_append sending_body(3))
qed

theorem status_sequence_witness:
  "body_result demo_env ''c1'' False [demo_campaign] demo_store = Inr ()
   \<and> find (\<lambda>c. c_id c = ''c1'') [demo_campaign] \<noteq> None
   \<and> status_writes (trace (run_world demo_env ''c1'' False [demo_campaign] demo_store))
       \<in> {[''sending'', ''completed''], [''sending'', ''completed_with_errors'']}
   \<and> body_result invalid_campaign_env ''c1'' False [demo_campaign] demo_store = Inl ValidationError
   \<and> \<not> db_fault invalid_campaign_env
         (db_ops (body_world invalid_campaign_env ''c1'' False [demo_campaign] demo_store))
   \<and> status_writes (trace (run_world invalid_campaign_env ''c1'' False [demo_campaign] demo_store))
       \<in> {[''failed''], [''sending'', ''failed'']}
   \<and> body_result invalid_recipient_env ''c1'' False [demo_campaign] demo_store = Inl ValidationError
   \<and> \<not> db_fault invalid_recipient_env
         (db_ops (body_world invalid_recipient_env ''c1'' False [demo_campaign] demo_store))
   \<and> status_writes (trace (run_world invalid_recipient_env ''c1'' False [demo_campaign] demo_store))
       \<in> {[''failed''], [''sending'', ''failed'']}
   \<and> store_up demo_env
   \<and> documents_valid demo_env ''c1'' [demo_campaign] demo_store"
proof -
  have f: "find (\<lambda>c. c_id c = ''c1'') [demo_campaign] \<noteq> None"
    by (simp add: demo_campaign_def)
  have hc: "\<not> db_fault invalid_campaign_env n" and hr: "\<not> db_fault invalid_recipient_env n" for n
    by (simp_all add: invalid_campaign_env_def invalid_recipient_env_def demo_env_def)
  note t1 = status_sequence[where env = demo_env and cid = "''c1''" and test_mode = False
      and cs = "[demo_campaign]" and rs = demo_store and e = StoreError]
  note t2 = status_sequence[where env = invalid_campaign_env and cid = "''c1''" and test_mode = False
      and cs = "[demo_campaign]" and rs = demo_store and e = ValidationError]
  note t3 = status_sequence[where env = invalid_recipient_env and cid = "''c1''" and test_mode = False
      and cs = "[demo_campaign]" and rs = demo_store and e = ValidationError]
  from t1 f demo_up demo_valid[of demo_store]
  have ok: "body_result demo_env ''c1'' False [demo_campaign] demo_store = Inr ()" by blast
  from t1 ok f
  have s1: "status_writes (trace (run_world demo_env ''c1'' False [demo_campaign] demo_store))
       \<in> {[''sending'', ''completed''], [''sending'', ''completed_with_errors'']}" by blast
  from t2 invalid_campaign_body(1) hc
  have s2: "status_writes (trace (run_world invalid_campaign_env ''c1'' False [demo_campaign] demo_store))
       \<in> {[''failed''], [''sending'', ''failed'']}" by blast
  from t3 invalid_recipient_body(1) hr
  have s3: "status_writes (trace (run_world invalid_recipient_env ''c1'' False [demo_campaign] demo_store))
       \<in> {[''failed''], [''sending'', ''failed'']}" by blast
  from ok f s1 s2 s3 invalid_campaign_body(1) invalid_recipient_body(1) hc hr demo_up
    demo_valid[of demo_store]
  show ?thesis by blast
qed

theorem fault_handler_witness:
  "body_result sending_fault_env ''c1'' False [demo_campaign] demo_store = Inl StoreError
   \<and> \<not> db_fault sending_fault_env (db_ops (body_world sending_fault_env ''c1'' False [demo_campaign] demo_store))
   \<and> find (\<lambda>c. c_id c = ''c1'') [demo_campaign] \<noteq> None
   \<and> run_completion sending_fault_env ''c1'' False [demo_campaign] demo_store = Returns
   \<and> (\<exists>c'. find (\<lambda>c. c_id c = ''c1'')
              (campaigns (run_world sending_fault_env ''c1'' False [demo_campaign] demo_store)) = Some c'
          \<and> c_status c' = ''failed'' \<and> c_updated_at c' = 102)
   \<and> body_result invalid_campaign_env ''c1'' False [demo_campaign] demo_store = Inl ValidationError
   \<and> \<not> db_fault invalid_campaign_env
         (db_ops (body_world invalid_campaign_env ''c1'' False [demo_campaign] demo_store))
   \<and> run_completion invalid_campaign_env ''c1'' False [demo_campaign] demo_store = Returns
   \<and> (\<exists>c'. find (\<lambda>c. c_id c = ''c1'')
              (campaigns (run_world invalid_campaign_env ''c1'' False [demo_campaign] demo_store)) = Some c'
          \<and> c_status c' = ''failed'' \<and> c_updated_at c' = 101)
   \<and> body_result demo_env ''c1'' False [demo_campaign] demo_store = Inr ()
   \<and> process_bulk_email_campaign demo_env ''c1'' False (start [demo_campaign] demo_store)
       = (Returns, body_world demo_env ''c1'' False [demo_campaign] demo_store)"
proof -
  have h: "\<not> db_fault sending_fault_env (db_ops (body_world sending_fault_env ''c1'' False [demo_campaign] demo_store))"
    by (simp add: sending_body(2)) (simp add: sending_fault_env_def)
  have hc: "\<not> db_fault invalid_campaign_env n" for n
    by (simp add: invalid_campaign_env_def demo_env_def)
  have f: "find (\<lambda>c. c_id c = ''c1'') [demo_campaign] \<noteq> None"
    by (simp add: demo_campaign_def)
  have n: "now sending_fault_env 2 = 102" "now invalid_campaign_env (Suc 0) = 101"
    by (simp_all add: sending_fault_env_def invalid_campaign_env_def demo_env_def)
  have ok: "body_result demo_env ''c1'' False [demo_campaign] demo_store = Inr ()"
    by (simp add: body_result_def run_body_ok[OF demo_up demo_found demo_valid])
  from fault_handler[where env = sending_fault_env and cid = "''c1''" and test_mode = False
        and cs = "[demo_campaign]" and rs = demo_store and e = StoreError]
    sending_body(1) h f n
  have a: "run_completion sending_fault_env ''c1'' False [demo_campaign] demo_store = Returns"
    and b: "\<exists>c'. find (\<lambda>c. c_id c = ''c1'')
              (campaigns (run_world sending_fault_env ''c1'' False [demo_campaign] demo_store)) = Some c'
          \<and> c_status c' = ''failed'' \<and> c_updated_at c' = 102"
    by (simp_all add: sending_body(2))
  from fault_handler[where env = invalid_campaign_env and cid = "''c1''" and test_mode = False
        and cs = "[demo_campaign]" and rs = demo_store and e = ValidationError]
    invalid_campaign_body(1) hc f n
  have c: "run_completion invalid_campaign_env ''c1'' False [demo_campaign] demo_store = Returns"
    and d: "\<exists>c'. find (\<lambda>c. c_id c = ''c1'')
              (campaigns (run_world invalid_campaign_env ''c1'' False [demo_campaign] demo_store)) = Some c'
          \<and> c_status c' = ''failed'' \<and> c_updated_at c' = 101"
    by (simp_all add: invalid_campaign_body(2))
  from fault_handler[where env = demo_env and cid = "''c1''" and test_mode = False
        and cs = "[demo_campaign]" and rs = demo_store and e = StoreError] ok
  have e: "process_bulk_email_campaign demo_env ''c1'' False (start [demo_campaign] demo_store)
       = (Returns, body_world demo_env ''c1'' False [demo_campaign] demo_store)"
    by simp
  from sending_body(1) h f a b invalid_campaign_body(1) hc c d ok e
  show ?thesis by simp
qed

theorem handler_frame_witness:
  "body_result late_fault_env ''c1'' False [demo_campaign] demo_store = Inl StoreError
   \<and> \<not> db_fault late_fault_env (db_ops (body_world late_fault_env ''c1'' False [demo_campaign] demo_store))
   \<and> map r_status (recipients (body_world late_fault_env ''c1'' False [demo_campaign] demo_store))
       = [''failed'', ''pending'', ''sent'']
   \<and> map c_sent_count (campaigns (run_world late_fault_env ''c1'' False [demo_campaign] demo_store)) = [0]
   \<and> map c_failed_count (campaigns (run_world late_fault_env ''c1'' False [demo_campaign] demo_store)) = [0]
   \<and> campaign_writes (trace (run_world late_fault_env ''c1'' False [demo_campaign] demo_store))
       = [(''c1'', [SetStatus ''sending'', SetUpdatedAt 101]),
          (''c1'', [SetStatus ''failed'', SetUpdatedAt 105])]
   \<and> body_result store_down_env ''c1'' False [demo_campaign] demo_store = Inl StoreError
   \<and> db_fault store_down_env (db_ops (body_world store_down_env ''c1'' False [demo_campaign] demo_store))
   \<and> campaign_writes (trace (run_world store_down_env ''c1'' False [demo_campaign] demo_store)) = []
   \<and> body_result invalid_recipient_env ''c1'' False [demo_campaign] demo_store = Inl ValidationError
   \<and> \<not> db_fault invalid_recipient_env
         (db_ops (body_world invalid_recipient_env ''c1'' False [demo_campaign] demo_store))
   \<and> map c_sent_count (campaigns (run_world invalid_recipient_env ''c1'' False [demo_campaign] demo_store)) = [0]
   \<and> campaign_writes (trace (run_world invalid_recipient_env ''c1'' False [demo_campaign] demo_store))
       = [(''c1'', [SetStatus ''sending'', SetUpdatedAt 101]),
          (''c1'', [SetStatus ''failed'', SetUpdatedAt 103])]"
proof -
  have h: "\<not> db_fault late_fault_env (db_ops (body_world late_fault_env ''c1'' False [demo_campaign] demo_store))"
    by (simp add: late_body(2)) (simp add: late_fault_env_def)
  have d: "db_fault store_down_env (db_ops (body_world store_down_env ''c1'' False [demo_campaign] demo_store))"
    by (simp add: store_down_env_def)
  have hr: "\<not> db_fault invalid_recipient_env n" for n
    by (simp add: invalid_recipient_env_def demo_env_def)
  have n: "now late_fault_env 5 = 105" "now invalid_recipient_env 3 = 103"
    by (simp_all add: late_fault_env_def invalid_recipient_env_def demo_env_def)
  have c: "map c_sent_count [demo_campaign] = [0]" "map c_failed_count [demo_campaign] = [0]"
    by (simp_all add: demo_campaign_def)
  from handler_frame[where env = late_fault_env and cid = "''c1''" and test_mode = False
        and cs = "[demo_campaign]" and rs = demo_store and e = StoreError]
    late_body(1) late_body(4) h n c
  have a1: "map c_sent_count (campaigns (run_world late_fault_env ''c1'' False [demo_campaign] demo_store)) = [0]"
    and a2: "map c_failed_count (campaigns (run_world late_fault_env ''c1'' False [demo_campaign] demo_store)) = [0]"
    and a3: "campaign_writes (trace (run_world late_fault_env ''c1'' False [demo_campaign] demo_store))
       = [(''c1'', [SetStatus ''sending'', SetUpdatedAt 101]),
          (''c1'', [SetStatus ''failed'', SetUpdatedAt 105])]"
    by (simp_all add: late_body(2))
  from handler_frame[where env = store_down_env and cid = "''c1''" and test_mode = False
        and cs = "[demo_campaign]" and rs = demo_store and e = StoreError]
    down_body(1) down_body(3) d
  have b1: "campaign_writes (trace (run_world store_down_env ''c1'' False [demo_campaign] demo_store)) = []"
    by simp
  from handler_frame[where env = invalid_recipient_env and cid = "''c1''" and test_mode = False
        and cs = "[demo_campaign]" and rs = demo_store and e = ValidationError]
    invalid_recipient_body(1) invalid_recipient_body(3) hr n c
  have c1: "map c_sent_count (campaigns (run_world invalid_recipient_env ''c1'' False [demo_campaign] demo_store)) = [0]"
    and c2: "campaign_writes (trace (run_world invalid_recipient_env ''c1'' False [demo_campaign] demo_store))
       = [(''c1'', [SetStatus ''sending'', SetUpdatedAt 101]),
          (''c1'', [SetStatus ''failed'', SetUpdatedAt 103])]"
    by (simp_all add: invalid_recipient_body(2))
  from late_body(1) late_body(3) h a1 a2 a3 down_body(1) d b1 invalid_recipient_body(1) hr c1 c2
  show ?thesis by simp
qed

end
